theory Spec2Isabelle
  imports Complex_Main
begin

text \<open>
  A shallow embedding of the language-to-action pipeline of the RT-2 demo:
  the action tokenizer and the action executor of \<^verbatim>\<open>Simullation.py\<close>, and the three
  matchers (\<^verbatim>\<open>CLIPMatcher.pick_and_place_from_text\<close> of \<^verbatim>\<open>Simullation.py\<close>,
  \<^verbatim>\<open>SemanticMatcher.decide\<close> of \<^verbatim>\<open>p.py\<close>,
  \<^verbatim>\<open>CLIPSemanticMatcher.pick_and_place_from_text\<close> of \<^verbatim>\<open>p_clip.py\<close>).
  Part I holds the definitions, Part II the lemmas and theorems.

  What lies outside the repository is a parameter of the model: the text encoder is a
  similarity function from two texts (or a text and an object crop) to a score, assumed
  to return; the camera is the predicate telling which objects have a segmentation mask.
  Command texts are strings of 8-bit characters read as ASCII.
\<close>

chapter \<open>Part I: the embedding\<close>

section \<open>Single-precision arithmetic (the tensors of the tokenizer)\<close>

text \<open>
  \<^verbatim>\<open>torch.linspace\<close> and \<^verbatim>\<open>torch.tensor(float(value))\<close> produce float32 tensors,
  and \<^verbatim>\<open>bins - value\<close> is a float32 subtraction.  A float32 number is modelled by
  the real number it denotes; \<open>fl32\<close> rounds a real to the nearest float32 (24 bits of
  significand, ties to even, gradual underflow below \<open>2 powi (-126)\<close>).  Overflow to
  infinity and NaN are not modelled: every number used below is far inside the finite range.

  \<open>expo x\<close> is the binary exponent of a positive \<open>x\<close>:
  \<open>2 powi expo x \<le> x < 2 powi (expo x + 1)\<close>, found by halving or doubling.
\<close>

function up2 :: "real \<Rightarrow> nat" where
  "up2 x = (if 2 \<le> x then Suc (up2 (x / 2)) else 0)"
  by pat_completeness auto
termination
proof (relation "measure (\<lambda>x. nat \<lfloor>x\<rfloor>)")
  show "wf (measure (\<lambda>x::real. nat \<lfloor>x\<rfloor>))" by simp
next
  fix x :: real
  assume h: "2 \<le> x"
  have "\<lfloor>x / 2\<rfloor> < \<lfloor>x\<rfloor>" using h by linarith
  moreover have "0 < \<lfloor>x\<rfloor>" using h by linarith
  ultimately show "(x / 2, x) \<in> measure (\<lambda>x. nat \<lfloor>x\<rfloor>)" by simp
qed

function down2 :: "real \<Rightarrow> nat" where
  "down2 x = (if 0 < x \<and> x < 1 then Suc (down2 (2 * x)) else 0)"
  by pat_completeness auto
termination
proof (relation "measure (\<lambda>x. nat \<lfloor>1 / x\<rfloor>)")
  show "wf (measure (\<lambda>x::real. nat \<lfloor>1 / x\<rfloor>))" by simp
next
  fix x :: real
  assume h: "0 < x \<and> x < 1"
  then have "1 < 1 / x" by simp
  then have a: "1 \<le> \<lfloor>1 / x\<rfloor>" by linarith
  have "1 / (2 * x) = (1 / x) / 2" by simp
  then have "\<lfloor>1 / (2 * x)\<rfloor> < \<lfloor>1 / x\<rfloor>" using a by linarith
  then show "(2 * x, x) \<in> measure (\<lambda>x. nat \<lfloor>1 / x\<rfloor>)" using a by simp
qed

declare up2.simps [simp del] down2.simps [simp del]

definition expo :: "real \<Rightarrow> int" where
  "expo x = (if 1 \<le> x then int (up2 x) else - int (down2 x))"

text \<open>Round to the nearest integer, ties to the even one (the IEEE 754 default).\<close>

definition rne :: "real \<Rightarrow> int" where
  "rne x = (let f = \<lfloor>x\<rfloor>; r = x - of_int f
            in if r < 1 / 2 then f else if 1 / 2 < r then f + 1
               else if even f then f else f + 1)"

definition ulp32 :: "real \<Rightarrow> real" where
  "ulp32 x = 2 powi (max (expo \<bar>x\<bar>) (- 126) - 23)"

definition fl32 :: "real \<Rightarrow> real" where
  "fl32 x = (let e = max (expo \<bar>x\<bar>) (- 126); u = 2 powi (e - 23)
             in u * of_int (rne (x / u)))"

text \<open>The smallest positive float32, and the numbers that are float32 values.\<close>

definition tiny32 :: real where
  "tiny32 = 2 powi (- 149)"

definition representable32 :: "real \<Rightarrow> bool" where
  "representable32 x \<longleftrightarrow> fl32 x = x"

section \<open>Action tokenizer (Simullation.py, class ActionTokenizerV2)\<close>

text \<open>
  \<^verbatim>\<open>torch.linspace(start, end, steps)\<close> belongs to the library, not to the repository:
  it returns the \<open>steps\<close> evenly spaced points from \<open>start\<close> to \<open>end\<close> as float32
  numbers.  \<open>linspace\<close> takes each point as the float32 nearest to its exact value; the
  library may differ from that in the last bit.  The theorems about \<open>discretize\<close> are
  therefore stated for any list of bins with the properties they need, and \<open>linspace\<close>
  only supplies the concrete axes of the default configuration.
\<close>

definition linspace :: "real \<Rightarrow> real \<Rightarrow> nat \<Rightarrow> real list" where
  "linspace start stop steps =
     map (\<lambda>i. fl32 (start + (stop - start) * of_nat i / of_nat (steps - 1))) [0..<steps]"

text \<open>\<^verbatim>\<open>math.pi\<close>: the double nearest to \<open>\<pi>\<close>.\<close>

definition math_pi :: real where
  "math_pi = 884279719003555 / 281474976710656"

record ActionTokenizerV2 =
  x_bins :: "real list"
  y_bins :: "real list"
  z_bins :: "real list"
  yaw_bins :: "real list"

definition ActionTokenizerV2_init :: "real \<Rightarrow> real \<Rightarrow> ActionTokenizerV2" where
  "ActionTokenizerV2_init env_size_meters env_height_meters =
     (let half_size = env_size_meters / 2
      in \<lparr> x_bins = linspace (- half_size) half_size 11,
           y_bins = linspace (- half_size) half_size 11,
           z_bins = linspace 0 env_height_meters 11,
           yaw_bins = linspace (- math_pi / 2) (math_pi / 2) 11 \<rparr>)"

text \<open>The tokenizer as \<^verbatim>\<open>main\<close> builds it, and its four axes.\<close>

definition default_tokenizer :: ActionTokenizerV2 where
  "default_tokenizer = ActionTokenizerV2_init 3 1"

definition axes :: "ActionTokenizerV2 \<Rightarrow> real list list" where
  "axes tk = [x_bins tk, y_bins tk, z_bins tk, yaw_bins tk]"

text \<open>
  \<^verbatim>\<open>torch.argmin\<close>: the index of the first minimal entry.  On an empty tensor it
  raises, which \<open>token_val\<close> returns as \<open>None\<close>.
\<close>

fun argmin_first :: "real list \<Rightarrow> nat" where
  "argmin_first [] = 0"
| "argmin_first [x] = 0"
| "argmin_first (x # y # ys) =
     (let j = argmin_first (y # ys) in if x \<le> (y # ys) ! j then 0 else Suc j)"

text \<open>\<^verbatim>\<open>torch.abs(bins - value)\<close>, with \<^verbatim>\<open>value = torch.tensor(float(value))\<close>.\<close>

definition bin_distances :: "real list \<Rightarrow> real \<Rightarrow> real list" where
  "bin_distances bins v = map (\<lambda>b. \<bar>fl32 (b - fl32 v)\<bar>) bins"

definition token_val :: "real \<Rightarrow> real list \<Rightarrow> int option" where
  "token_val v bins =
     (if bins = [] then None else Some (int (argmin_first (bin_distances bins v)) - 5))"

text \<open>The format \<^verbatim>\<open>{token_val:+d}\<close>: a sign, then the decimal digits.\<close>

fun nat_digits :: "nat \<Rightarrow> string" where
  "nat_digits n =
     (if n < 10 then [''0123456789'' ! n]
      else nat_digits (n div 10) @ [''0123456789'' ! (n mod 10)])"

declare nat_digits.simps [simp del]

definition format_signed :: "int \<Rightarrow> string" where
  "format_signed k =
     (if 0 \<le> k then CHR ''+'' # nat_digits (nat k) else CHR ''-'' # nat_digits (nat (- k)))"

definition discretize :: "real \<Rightarrow> real list \<Rightarrow> string \<Rightarrow> string option" where
  "discretize v bins prefix =
     map_option (\<lambda>t. prefix @ ''_'' @ format_signed t) (token_val v bins)"

text \<open>
  The hypotheses on a list of bins under which float32 rounding cannot reorder the
  distances of an in-range value: any two bins lie further apart than the float32
  resolution at the scale of the whole range.
\<close>

definition resolution32 :: "real list \<Rightarrow> real" where
  "resolution32 bins = (last bins - hd bins) / 2 ^ 23 + tiny32"

definition well_separated :: "real list \<Rightarrow> bool" where
  "well_separated bins = sorted_wrt (\<lambda>a b. resolution32 bins < b - a) bins"

section \<open>Action executor (Simullation.py, class ActionExecutor)\<close>

text \<open>
  An action vector is the 8-tuple
  \<open>(terminate, x, y, z, roll, pitch, yaw, gripper)\<close> that the executor appends to its
  list.  Positions are Python floats; the only arithmetic on them is \<open>pos[2] + 0.1\<close>,
  written here over the reals (no claim below depends on how that sum is rounded).
\<close>

type_synonym position = "real \<times> real \<times> real"

type_synonym action_vector = "int \<times> real \<times> real \<times> real \<times> real \<times> real \<times> real \<times> int"

definition terminate_of :: "action_vector \<Rightarrow> int" where
  "terminate_of a = fst a"

definition gripper_of :: "action_vector \<Rightarrow> int" where
  "gripper_of a = snd (snd (snd (snd (snd (snd (snd a))))))"

record ActionExecutor =
  home_pos :: position
  home_rot :: position
  gripper_open :: int

definition ActionExecutor_init :: ActionExecutor where
  "ActionExecutor_init =
     \<lparr> home_pos = (0, 0, 7 / 10), home_rot = (0, 0, 0), gripper_open = 1 \<rparr>"

definition mk_action :: "int \<Rightarrow> position \<Rightarrow> position \<Rightarrow> int \<Rightarrow> action_vector" where
  "mk_action t p r g =
     (case p of (px, py, pz) \<Rightarrow> case r of (rr, rp, ry) \<Rightarrow> (t, px, py, pz, rr, rp, ry, g))"

text \<open>
  Both generators return the list of actions; the assignment to \<open>self.gripper_open\<close> is
  the only effect, so the model returns the updated executor beside the list.
\<close>

definition generate_pick_actions ::
  "ActionExecutor \<Rightarrow> position \<Rightarrow> bool \<Rightarrow> action_vector list \<times> ActionExecutor" where
  "generate_pick_actions self pos is_final =
     (case pos of (p0, p1, p2) \<Rightarrow>
        let pos_above = (p0, p1, p2 + 1 / 10);
            a1 = mk_action 0 pos_above (home_rot self) 1;
            a2 = mk_action 0 pos (home_rot self) 1;
            self' = self\<lparr>gripper_open := 0\<rparr>;
            a3 = mk_action 0 pos (home_rot self') 0;
            terminate_flag = (if is_final then 1 else 0);
            a4 = mk_action terminate_flag pos_above (home_rot self') 0
        in ([a1, a2, a3, a4], self'))"

definition generate_place_actions ::
  "ActionExecutor \<Rightarrow> position \<Rightarrow> bool \<Rightarrow> action_vector list \<times> ActionExecutor" where
  "generate_place_actions self pos is_final =
     (case pos of (p0, p1, p2) \<Rightarrow>
        let pos_above = (p0, p1, p2 + 1 / 10);
            a1 = mk_action 0 pos_above (home_rot self) 0;
            a2 = mk_action 0 pos (home_rot self) 0;
            self' = self\<lparr>gripper_open := 1\<rparr>;
            a3 = mk_action 0 pos (home_rot self') 1;
            terminate_flag = (if is_final then 1 else 0);
            a4 = mk_action 0 pos_above (home_rot self') 1;
            a5 = mk_action terminate_flag (home_pos self') (home_rot self') 1
        in ([a1, a2, a3, a4, a5], self'))"

text \<open>A history of calls on one executor object, replayed from left to right.\<close>

datatype executor_call = PickCall position bool | PlaceCall position bool

fun run_call :: "ActionExecutor \<Rightarrow> executor_call \<Rightarrow> ActionExecutor" where
  "run_call self (PickCall pos is_final) = snd (generate_pick_actions self pos is_final)"
| "run_call self (PlaceCall pos is_final) = snd (generate_place_actions self pos is_final)"

definition run_calls :: "executor_call list \<Rightarrow> ActionExecutor \<Rightarrow> ActionExecutor" where
  "run_calls cs self = foldl run_call self cs"

section \<open>Strings and regular expressions (Python's str and re)\<close>

text \<open>
  The whitespace of \<^verbatim>\<open>str.strip\<close> and of \<^verbatim>\<open>\s\<close>, the word characters of
  \<^verbatim>\<open>\w\<close> and the letters \<^verbatim>\<open>str.lower\<close> changes, on ASCII.
\<close>

definition is_space :: "char \<Rightarrow> bool" where
  "is_space c \<longleftrightarrow> c \<in> set [CHR '' '', CHR 0x09, CHR 0x0A, CHR 0x0B, CHR 0x0C, CHR 0x0D,
                               CHR 0x1C, CHR 0x1D, CHR 0x1E, CHR 0x1F]"

definition is_word :: "char \<Rightarrow> bool" where
  "is_word c \<longleftrightarrow> c \<in> set ''abcdefghijklmnopqrstuvwxyzABCDEFGHIJKLMNOPQRSTUVWXYZ0123456789_''"

definition lower_char :: "char \<Rightarrow> char" where
  "lower_char c =
     (case map_of (zip ''ABCDEFGHIJKLMNOPQRSTUVWXYZ'' ''abcdefghijklmnopqrstuvwxyz'') c of
        None \<Rightarrow> c | Some d \<Rightarrow> d)"

definition lower :: "string \<Rightarrow> string" where
  "lower s = map lower_char s"

definition strip :: "string \<Rightarrow> string" where
  "strip s = rev (dropWhile is_space (rev (dropWhile is_space s)))"

fun starts_with :: "string \<Rightarrow> string \<Rightarrow> bool" where
  "starts_with [] s = True"
| "starts_with (p # ps) [] = False"
| "starts_with (p # ps) (c # cs) = (p = c \<and> starts_with ps cs)"

text \<open>The substring test \<^verbatim>\<open>sub in s\<close>.\<close>

fun contains :: "string \<Rightarrow> string \<Rightarrow> bool" where
  "contains sub [] = (sub = [])"
| "contains sub (c # cs) = (starts_with sub (c # cs) \<or> contains sub cs)"

text \<open>A Python condition \<^verbatim>\<open>if phrase:\<close> on a value that is \<^verbatim>\<open>None\<close> or a string.\<close>

definition truthy :: "string option \<Rightarrow> bool" where
  "truthy p = (case p of None \<Rightarrow> False | Some s \<Rightarrow> s \<noteq> [])"

text \<open>
  The fragment of \<^verbatim>\<open>re\<close> that the patterns of the repository use: literals,
  concatenation, alternation, the greedy optional group, greedy and lazy repetition of
  one character class, and \<^verbatim>\<open>$\<close>.  \<open>rmatch r s\<close> lists what is left of \<open>s\<close> after
  each way of matching \<open>r\<close> at its start, in the order in which the backtracking matcher
  tries them (an alternative before the next one, a greedy repetition longest first, a
  lazy one shortest first).
\<close>

datatype cclass = Space | Word | AnyChar

fun in_class :: "cclass \<Rightarrow> char \<Rightarrow> bool" where
  "in_class Space c = is_space c"
| "in_class Word c = is_word c"
| "in_class AnyChar c = (c \<noteq> CHR 0x0A)"

datatype regex =
    Lit string
  | Cat regex regex
  | Alt regex regex
  | Opt regex
  | Plus cclass
  | Star cclass
  | LazyStar cclass
  | LazyPlus cclass
  | Eos
  | Eps
  | Never

text \<open>The suffixes of \<open>s\<close> left after 0, 1, 2, ... leading characters of the class.\<close>

fun run_suffixes :: "cclass \<Rightarrow> string \<Rightarrow> string list" where
  "run_suffixes k [] = [[]]"
| "run_suffixes k (c # cs) = (c # cs) # (if in_class k c then run_suffixes k cs else [])"

fun rmatch :: "regex \<Rightarrow> string \<Rightarrow> string list" where
  "rmatch (Lit l) s = (if starts_with l s then [drop (length l) s] else [])"
| "rmatch (Cat a b) s = concat (map (rmatch b) (rmatch a s))"
| "rmatch (Alt a b) s = rmatch a s @ rmatch b s"
| "rmatch (Opt a) s = rmatch a s @ [s]"
| "rmatch (Plus k) s = rev (tl (run_suffixes k s))"
| "rmatch (Star k) s = rev (run_suffixes k s)"
| "rmatch (LazyStar k) s = run_suffixes k s"
| "rmatch (LazyPlus k) s = tl (run_suffixes k s)"
| "rmatch Eos s = (if s = [] \<or> s = [CHR 0x0A] then [s] else [])"
| "rmatch Eps s = [s]"
| "rmatch Never s = []"

fun cats :: "regex list \<Rightarrow> regex" where
  "cats [] = Eps"
| "cats (r # rs) = Cat r (cats rs)"

fun alts :: "regex list \<Rightarrow> regex" where
  "alts [] = Never"
| "alts (r # rs) = Alt r (alts rs)"

text \<open>
  Every pattern of the repository has one capturing group: a pattern is the triple of
  what stands before the group, the group, and what stands after it.
  \<open>re_search p s\<close> is \<^verbatim>\<open>re.search(p, s)\<close> followed by \<^verbatim>\<open>group(1)\<close>: the
  leftmost start position with a match, and there the first match in backtracking order.
\<close>

type_synonym pattern = "regex \<times> regex \<times> regex"

definition match_here :: "pattern \<Rightarrow> string \<Rightarrow> string option" where
  "match_here p s =
     (case p of (pre, grp, post) \<Rightarrow>
        (case concat (map (\<lambda>r1. concat (map (\<lambda>r2. map (\<lambda>r3. take (length r1 - length r2) r1)
                                                        (rmatch post r2))
                                            (rmatch grp r1)))
                          (rmatch pre s)) of
           [] \<Rightarrow> None
         | g # _ \<Rightarrow> Some g))"

fun re_search :: "pattern \<Rightarrow> string \<Rightarrow> string option" where
  "re_search p [] = match_here p []"
| "re_search p (c # cs) =
     (case match_here p (c # cs) of Some g \<Rightarrow> Some g | None \<Rightarrow> re_search p cs)"

text \<open>
  The loop \<^verbatim>\<open>for pattern in patterns: m = re.search(pattern, txt); if m: ...; break\<close>
  with \<^verbatim>\<open>phrase = m.group(1).strip()\<close>.
\<close>

fun first_search :: "pattern list \<Rightarrow> string \<Rightarrow> string option" where
  "first_search [] s = None"
| "first_search (p # ps) s =
     (case re_search p s of Some g \<Rightarrow> Some (strip g) | None \<Rightarrow> first_search ps s)"

text \<open>\<^verbatim>\<open>(?:the\s+)?\<close>\<close>

definition the_ws :: regex where
  "the_ws = Opt (cats [Lit ''the'', Plus Space])"

section \<open>Insertion-ordered dictionaries and selection by score\<close>

type_synonym score = real

text \<open>\<^verbatim>\<open>d[k] = v\<close> and \<^verbatim>\<open>d.get(k, default)\<close> on a dict kept as its list of items.\<close>

fun dict_set :: "('k \<times> 'v) list \<Rightarrow> 'k \<Rightarrow> 'v \<Rightarrow> ('k \<times> 'v) list" where
  "dict_set [] k v = [(k, v)]"
| "dict_set ((k', v') # d) k v = (if k' = k then (k, v) # d else (k', v') # dict_set d k v)"

definition dict_get :: "('k \<times> 'v) list \<Rightarrow> 'k \<Rightarrow> 'v \<Rightarrow> 'v" where
  "dict_get d k dflt = (case map_of d k of None \<Rightarrow> dflt | Some v \<Rightarrow> v)"

text \<open>
  The loop \<^verbatim>\<open>uid_scores[uid] = max(uid_scores.get(uid, -1.0), score)\<close> over the
  candidates, skipping \<^verbatim>\<open>exclude_uid\<close> under the condition
  \<^verbatim>\<open>if exclude_uid and uid == exclude_uid\<close> (so an \<^verbatim>\<open>exclude_uid\<close> of 0 excludes
  nothing).
\<close>

definition excluded :: "int option \<Rightarrow> int \<Rightarrow> bool" where
  "excluded exclude_uid uid =
     (case exclude_uid of None \<Rightarrow> False | Some e \<Rightarrow> e \<noteq> 0 \<and> uid = e)"

fun pool_scores ::
  "int option \<Rightarrow> (int \<times> score) list \<Rightarrow> (int \<times> score) list \<Rightarrow> (int \<times> score) list" where
  "pool_scores exclude_uid uid_scores [] = uid_scores"
| "pool_scores exclude_uid uid_scores ((uid, s) # rest) =
     (if excluded exclude_uid uid then pool_scores exclude_uid uid_scores rest
      else pool_scores exclude_uid
             (dict_set uid_scores uid (max (dict_get uid_scores uid (- 1)) s)) rest)"

text \<open>\<^verbatim>\<open>max(items, key=lambda x: x[1])\<close>: the first item with the greatest score.\<close>

fun max_by_score :: "('k \<times> score) \<Rightarrow> ('k \<times> score) list \<Rightarrow> ('k \<times> score)" where
  "max_by_score best [] = best"
| "max_by_score best (x # xs) = max_by_score (if snd best < snd x then x else best) xs"

text \<open>\<^verbatim>\<open>torch.argmax\<close> and \<^verbatim>\<open>np.argmax\<close>: the index of the first maximal entry.\<close>

fun argmax_first :: "score list \<Rightarrow> nat" where
  "argmax_first [] = 0"
| "argmax_first [x] = 0"
| "argmax_first (x # y # ys) =
     (let j = argmax_first (y # ys) in if (y # ys) ! j \<le> x then 0 else Suc j)"

text \<open>
  \<^verbatim>\<open>sorted(items, key=lambda item: item[1], reverse=True)\<close>: by descending score,
  items of equal score in their original order.
\<close>

definition sorted_desc :: "(int \<times> score) list \<Rightarrow> (int \<times> score) list" where
  "sorted_desc items = sort_key (\<lambda>item. - snd item) items"

section \<open>CLIPMatcher.pick_and_place_from_text (Simullation.py)\<close>

text \<open>
  \<open>sim query candidate\<close> is the cosine similarity the encoder gives the two texts
  (\<^verbatim>\<open>compute_similarity\<close> of the two \<^verbatim>\<open>encode_text\<close> results).
  \<open>objects_meta\<close> is the list of items of the dict of visible objects, in its order.
\<close>

type_synonym similarity = "string \<Rightarrow> string \<Rightarrow> score"

record cube_meta =
  meta_name :: string
  meta_color :: "real list"

text \<open>The place result: an object's uid or the string \<^verbatim>\<open>"GROUND"\<close>.\<close>

datatype place_target = GROUND | Object int

record debug_scores =
  dbg_place_on_ground :: bool
  dbg_pick_score :: "score option"
  dbg_pick_phrase :: "string option"
  dbg_ground_detected :: bool
  dbg_place_score :: "score option"
  dbg_place_phrase :: "string option"
  dbg_direct_color_match :: "string option"
  dbg_fallback_pick_score :: "score option"

definition ground_keywords :: "string list" where
  "ground_keywords = [''ground'', ''table'', ''floor'', ''down'', ''surface'']"

definition any_ground_keyword :: "string \<Rightarrow> bool" where
  "any_ground_keyword s = list_ex (\<lambda>keyword. contains keyword s) ground_keywords"

definition sim_pick_pre :: regex where
  "sim_pick_pre =
     cats [alts [cats [Lit ''pick'', Plus Space, Lit ''up''], Lit ''pick'', Lit ''grab'',
                 Lit ''take'', Lit ''lift'', Lit ''get''],
           Plus Space, the_ws]"

definition pick_patterns :: "pattern list" where
  "pick_patterns =
     [(sim_pick_pre, Plus Word, Eps),
      (sim_pick_pre, cats [Plus Word, Plus Space, Plus Word], Eps)]"

definition sim_prep :: regex where
  "sim_prep = alts [Lit ''on'', Lit ''onto'', Lit ''to'', Lit ''at'', Lit ''over'']"

definition place_patterns :: "pattern list" where
  "place_patterns =
     [(cats [alts [Lit ''place'', Lit ''put'', Lit ''set'', Lit ''drop'', Lit ''move''],
             LazyStar AnyChar, sim_prep, Plus Space, the_ws], Plus Word, Eps),
      (cats [sim_prep, Plus Space, the_ws], cats [Plus Word, Plus Space, Plus Word], Eps),
      (cats [sim_prep, Plus Space, the_ws], Plus Word, Eps)]"

definition extract_pick_phrase :: "string \<Rightarrow> string option" where
  "extract_pick_phrase txt = first_search pick_patterns txt"

definition extract_place_phrase :: "string \<Rightarrow> string option" where
  "extract_place_phrase txt = first_search place_patterns txt"

text \<open>The candidate descriptions: \<^verbatim>\<open>lookup_texts\<close> zipped with \<^verbatim>\<open>cand_index_to_uid\<close>.\<close>

definition lookup_texts :: "string \<Rightarrow> string list" where
  "lookup_texts color_name =
     [color_name, color_name @ '' cube'', color_name @ '' block'',
      ''the '' @ color_name, ''the '' @ color_name @ '' cube'']"

definition candidates :: "(int \<times> cube_meta) list \<Rightarrow> (string \<times> int) list" where
  "candidates objects_meta =
     concat (map (\<lambda>(uid, meta). map (\<lambda>t. (t, uid)) (lookup_texts (meta_name meta)))
                 objects_meta)"

definition phrase_variations :: "string \<Rightarrow> string list" where
  "phrase_variations phrase =
     [phrase, ''the '' @ phrase, phrase @ '' cube'', phrase @ '' block'']"

text \<open>\<^verbatim>\<open>torch.stack(all_sims).max(dim=0)[0]\<close>: per candidate, the greatest score over the variations.\<close>

definition max_sims :: "similarity \<Rightarrow> string \<Rightarrow> (string \<times> int) list \<Rightarrow> score list" where
  "max_sims sim phrase cands =
     map (\<lambda>(t, uid). foldl max (sim phrase t)
                        (map (\<lambda>var. sim var t) (tl (phrase_variations phrase))))
         cands"

definition best_uid_for ::
  "similarity \<Rightarrow> (string \<times> int) list \<Rightarrow> string \<Rightarrow> int option \<Rightarrow> int option \<times> score" where
  "best_uid_for sim cands phrase exclude_uid =
     (let uid_scores = pool_scores exclude_uid [] (zip (map snd cands) (max_sims sim phrase cands))
      in case uid_scores of
           [] \<Rightarrow> (None, 0)
         | x # xs \<Rightarrow> (case max_by_score x xs of (uid, s) \<Rightarrow> (Some uid, s)))"

text \<open>The fallback loop \<^verbatim>\<open>for uid, meta in objects_meta.items(): if meta['name'] in txt: ... break\<close>.\<close>

definition direct_color :: "string \<Rightarrow> (int \<times> cube_meta) list \<Rightarrow> (int \<times> cube_meta) option" where
  "direct_color txt objects_meta = find (\<lambda>(uid, meta). contains (meta_name meta) txt) objects_meta"

definition pick_and_place_from_text ::
  "similarity \<Rightarrow> string \<Rightarrow> (int \<times> cube_meta) list \<Rightarrow>
   int option \<times> place_target option \<times> debug_scores" where
  "pick_and_place_from_text sim text objects_meta =
     (let txt = lower text;
          pick_phrase = extract_pick_phrase txt;
          place_phrase = extract_place_phrase txt;
          place_on_ground =
            (any_ground_keyword txt \<or>
             (case place_phrase of None \<Rightarrow> False | Some p \<Rightarrow> any_ground_keyword p));
          cands = candidates objects_meta;
          dbg0 = \<lparr> dbg_place_on_ground = place_on_ground, dbg_pick_score = None,
                   dbg_pick_phrase = None, dbg_ground_detected = False,
                   dbg_place_score = None, dbg_place_phrase = None,
                   dbg_direct_color_match = None, dbg_fallback_pick_score = None \<rparr>;
          (pick_uid1, dbg1) =
            (case pick_phrase of
               None \<Rightarrow> (None, dbg0)
             | Some p \<Rightarrow>
                 if p = [] then (None, dbg0)
                 else (case best_uid_for sim cands p None of
                         (u, s) \<Rightarrow> (u, dbg0\<lparr>dbg_pick_score := Some s,
                                               dbg_pick_phrase := Some p\<rparr>)));
          (place_uid1, dbg2) =
            (if place_on_ground then (Some GROUND, dbg1\<lparr>dbg_ground_detected := True\<rparr>)
             else (case place_phrase of
                     None \<Rightarrow> (None, dbg1)
                   | Some q \<Rightarrow>
                       if q \<noteq> [] \<and> place_phrase \<noteq> pick_phrase
                       then (case best_uid_for sim cands q pick_uid1 of
                               (u, s) \<Rightarrow> (map_option Object u,
                                          dbg1\<lparr>dbg_place_score := Some s,
                                                dbg_place_phrase := Some q\<rparr>))
                       else (None, dbg1)));
          (pick_uid2, dbg3) =
            (case pick_uid1 of
               Some u \<Rightarrow> (Some u, dbg2)
             | None \<Rightarrow>
                 (case direct_color txt objects_meta of
                    Some (uid, meta) \<Rightarrow>
                      (Some uid, dbg2\<lparr>dbg_direct_color_match := Some (meta_name meta)\<rparr>)
                  | None \<Rightarrow>
                      (case best_uid_for sim cands txt None of
                         (u, s) \<Rightarrow> (u, dbg2\<lparr>dbg_fallback_pick_score := Some s\<rparr>))))
      in (pick_uid2, place_uid1, dbg3))"

section \<open>SemanticMatcher.decide (p.py)\<close>

record ObjectInfo =
  obj_uid :: int
  obj_name :: string
  obj_color :: "real \<times> real \<times> real \<times> real"
  obj_home_position :: position

record decide_debug =
  dec_error :: "string option"
  dec_pick_phrase :: "string option"
  dec_place_phrase :: "string option"
  dec_pick_score :: "score option"
  dec_place_score :: "score option"
  dec_fallback_scores :: "(int \<times> score) list option"
  dec_resolved_same_object :: "score option"
  dec_uid_to_texts :: "(int \<times> string list) list"

record MatcherDecision =
  pick_uid :: "int option"
  place_uid :: "int option"
  debug :: decide_debug

definition error_decision :: "string \<Rightarrow> MatcherDecision" where
  "error_decision msg =
     \<lparr> pick_uid = None, place_uid = None,
       debug = \<lparr> dec_error = Some msg, dec_pick_phrase = None, dec_place_phrase = None,
                 dec_pick_score = None, dec_place_score = None, dec_fallback_scores = None,
                 dec_resolved_same_object = None, dec_uid_to_texts = [] \<rparr> \<rparr>"

text \<open>\<^verbatim>\<open>(?:\s+(?:and|then|,)|$)\<close>\<close>

definition phrase_end :: regex where
  "phrase_end = alts [cats [Plus Space, alts [Lit ''and'', Lit ''then'', Lit '','']], Eos]"

definition decide_pick_pattern :: pattern where
  "decide_pick_pattern =
     (cats [alts [Lit ''pick'', Lit ''grab'', Lit ''take'', Lit ''lift'', Lit ''pick up''],
            Plus Space, the_ws],
      LazyPlus AnyChar, phrase_end)"

definition decide_place_pattern :: pattern where
  "decide_place_pattern =
     (cats [alts [Lit ''place'', Lit ''put'', Lit ''set'', Lit ''drop'', Lit ''stack''],
            Plus Space, Opt (cats [Lit ''it'', Plus Space]),
            Opt (alts [Lit ''on'', Lit ''onto'', Lit ''in'', Lit ''into'', Lit ''at'', Lit ''over'']),
            Star Space, the_ws],
      LazyPlus AnyChar, phrase_end)"

text \<open>\<^verbatim>\<open>m.group(1).strip() if m else None\<close>\<close>

definition search_phrase :: "pattern \<Rightarrow> string \<Rightarrow> string option" where
  "search_phrase p txt = map_option strip (re_search p txt)"

definition descriptors :: "string \<Rightarrow> string list" where
  "descriptors nm = [nm @ '' cube'', nm @ '' block'', nm @ '' object'', nm @ '' colored cube'']"

text \<open>\<^verbatim>\<open>candidate_texts\<close> zipped with \<^verbatim>\<open>candidate_uid\<close>.\<close>

definition decide_candidates :: "(int \<times> ObjectInfo) list \<Rightarrow> (string \<times> int) list" where
  "decide_candidates objects =
     concat (map (\<lambda>(uid, meta). map (\<lambda>desc. (desc, uid)) (descriptors (obj_name meta)))
                 objects)"

text \<open>\<^verbatim>\<open>util.cos_sim(embedding, candidate_embs)[0]\<close> for the embedding of a text.\<close>

definition cos_scores :: "similarity \<Rightarrow> string \<Rightarrow> (string \<times> int) list \<Rightarrow> score list" where
  "cos_scores sim query cands = map (\<lambda>(t, uid). sim query t) cands"

definition decide_best_uid_for ::
  "similarity \<Rightarrow> (string \<times> int) list \<Rightarrow> string \<Rightarrow> int \<times> score" where
  "decide_best_uid_for sim cands query =
     (let scores = cos_scores sim query cands;
          best_index = argmax_first scores
      in (snd (cands ! best_index), scores ! best_index))"

definition decide :: "similarity \<Rightarrow> string \<Rightarrow> (int \<times> ObjectInfo) list \<Rightarrow> MatcherDecision" where
  "decide sim command objects =
     (if objects = [] then error_decision ''no visible objects''
      else let normalized = strip command in
      if normalized = [] then error_decision ''empty command''
      else
        let txt = lower normalized;
            pick_phrase = search_phrase decide_pick_pattern txt;
            place_phrase = search_phrase decide_place_pattern txt;
            cands = decide_candidates objects;
            include_pick = truthy pick_phrase;
            include_place = (truthy place_phrase \<and> place_phrase \<noteq> pick_phrase)
        in
        if cands = [] then error_decision ''no candidate embeddings''
        else
          let pick1 = (case pick_phrase of
                         Some p \<Rightarrow> if include_pick then Some (decide_best_uid_for sim cands p)
                                   else None
                       | None \<Rightarrow> None);
              place1 = (case place_phrase of
                          Some q \<Rightarrow> if include_place then Some (decide_best_uid_for sim cands q)
                                    else None
                        | None \<Rightarrow> None);
              pick_uid1 = map_option fst pick1;
              place_uid1 = map_option fst place1;
              scores_full = zip (map snd cands) (cos_scores sim txt cands);
              fallback = (pick_uid1 = None \<or> place_uid1 = None);
              sorted_uids = sorted_desc (pool_scores None [] scores_full);
              pick_uid2 =
                (if fallback \<and> pick_uid1 = None
                 then (case sorted_uids of [] \<Rightarrow> None | x # _ \<Rightarrow> Some (fst x))
                 else pick_uid1);
              place_uid2 =
                (if fallback \<and> place_uid1 = None
                 then (case sorted_uids of x # y # _ \<Rightarrow> Some (fst y) | _ \<Rightarrow> None)
                 else place_uid1);
              collision =
                (pick_uid2 \<noteq> None \<and> place_uid2 \<noteq> None \<and> pick_uid2 = place_uid2
                 \<and> length objects > 1);
              other = (if collision
                       then find (\<lambda>(uid, s). Some uid \<noteq> pick_uid2) (sorted_desc scores_full)
                       else None);
              place_uid3 = (case other of Some (uid, s) \<Rightarrow> Some uid | None \<Rightarrow> place_uid2)
          in \<lparr> pick_uid = pick_uid2, place_uid = place_uid3,
               debug = \<lparr> dec_error = None, dec_pick_phrase = pick_phrase,
                         dec_place_phrase = place_phrase,
                         dec_pick_score = map_option snd pick1,
                         dec_place_score = map_option snd place1,
                         dec_fallback_scores = (if fallback then Some sorted_uids else None),
                         dec_resolved_same_object = map_option snd other,
                         dec_uid_to_texts =
                           map (\<lambda>(uid, meta). (uid, descriptors (obj_name meta))) objects \<rparr> \<rparr>)"

section \<open>CLIPSemanticMatcher.pick_and_place_from_text (p_clip.py)\<close>

text \<open>
  \<open>isim query uid\<close> is the similarity of a text with the image crop of object \<open>uid\<close>;
  \<open>in_seg uid\<close> tells whether the segmentation mask of \<open>uid\<close> is non-empty, which is
  when \<^verbatim>\<open>seg_to_object_crops\<close> yields a crop for it.
\<close>

type_synonym image_similarity = "string \<Rightarrow> int \<Rightarrow> score"

record clip_debug =
  clip_error :: "string option"
  clip_pick_phrase :: "(string \<times> int option \<times> score) option"
  clip_place_phrase :: "(string \<times> int option \<times> score) option"
  clip_fallback_pick :: "(int \<times> score) option"
  clip_fallback_place :: "(int \<times> score) option"
  clip_resolved_same :: "(int \<times> int) option"
  clip_visible_uids :: "int list"

definition clip_place_pattern :: pattern where
  "clip_place_pattern =
     (cats [alts [Lit ''place'', Lit ''put'', Lit ''set'', Lit ''drop'', Lit ''stack''],
            Plus Space, Opt (cats [Lit ''it'', Plus Space]),
            Opt (alts [Lit ''on'', Lit ''onto'', Lit ''in'', Lit ''into'', Lit ''at'', Lit ''over'',
                       Lit ''onto'']),
            Star Space, the_ws],
      LazyPlus AnyChar, phrase_end)"

definition seg_to_object_crops :: "(int \<Rightarrow> bool) \<Rightarrow> int list \<Rightarrow> int list" where
  "seg_to_object_crops in_seg object_uids = filter in_seg object_uids"

definition best_uid_for_phrase ::
  "image_similarity \<Rightarrow> int list \<Rightarrow> string option \<Rightarrow> int option \<times> score option" where
  "best_uid_for_phrase isim crops phrase =
     (case phrase of
        None \<Rightarrow> (None, None)
      | Some p \<Rightarrow>
          if strip p = [] then (None, None)
          else if crops = [] then (None, None)
          else let sims = map (isim p) crops; best_idx = argmax_first sims
               in (Some (crops ! best_idx), Some (sims ! best_idx)))"

definition clip_pick_and_place_from_text ::
  "image_similarity \<Rightarrow> (int \<Rightarrow> bool) \<Rightarrow> string \<Rightarrow> (int \<times> cube_meta) list \<Rightarrow>
   int option \<times> int option \<times> clip_debug" where
  "clip_pick_and_place_from_text isim in_seg text objects_meta =
     (let txt = strip (lower text);
          pick_phrase = search_phrase decide_pick_pattern txt;
          place_phrase = search_phrase clip_place_pattern txt;
          visible_uids = map fst objects_meta;
          crops = seg_to_object_crops in_seg visible_uids;
          dbg0 = \<lparr> clip_error = None, clip_pick_phrase = None, clip_place_phrase = None,
                   clip_fallback_pick = None, clip_fallback_place = None,
                   clip_resolved_same = None, clip_visible_uids = [] \<rparr>
      in
      if crops = [] then (None, None, dbg0\<lparr>clip_error := Some ''no visible crops''\<rparr>)
      else
        let (pick_uid1, pick_score1) =
              (if truthy pick_phrase then best_uid_for_phrase isim crops pick_phrase
               else (None, None));
            (place_uid1, place_score1) =
              (if truthy place_phrase then best_uid_for_phrase isim crops place_phrase
               else (None, None));
            fallback = (pick_uid1 = None \<or> place_uid1 = None);
            sorted_uids = sorted_desc (map (\<lambda>uid. (uid, isim txt uid)) crops);
            fb_pick = (if fallback \<and> pick_uid1 = None
                       then (case sorted_uids of [] \<Rightarrow> None | x # _ \<Rightarrow> Some x) else None);
            fb_place = (if fallback \<and> place_uid1 = None
                        then (case sorted_uids of x # y # _ \<Rightarrow> Some y | _ \<Rightarrow> None) else None);
            pick_uid2 = (case fb_pick of Some x \<Rightarrow> Some (fst x) | None \<Rightarrow> pick_uid1);
            place_uid2 = (case fb_place of Some y \<Rightarrow> Some (fst y) | None \<Rightarrow> place_uid1);
            other = (if pick_uid2 \<noteq> None \<and> place_uid2 \<noteq> None \<and> pick_uid2 = place_uid2
                     then find (\<lambda>(uid, s). Some uid \<noteq> pick_uid2) sorted_uids else None);
            place_uid3 = (case other of Some (uid, s) \<Rightarrow> Some uid | None \<Rightarrow> place_uid2)
        in (pick_uid2, place_uid3,
            \<lparr> clip_error = None,
              clip_pick_phrase =
                (case (pick_phrase, pick_score1) of
                   (Some p, Some s) \<Rightarrow> Some (p, pick_uid1, s) | _ \<Rightarrow> None),
              clip_place_phrase =
                (case (place_phrase, place_score1) of
                   (Some q, Some s) \<Rightarrow> Some (q, place_uid1, s) | _ \<Rightarrow> None),
              clip_fallback_pick = fb_pick, clip_fallback_place = fb_place,
              clip_resolved_same =
                (case (other, pick_uid2) of
                   (Some (uid, s), Some pu) \<Rightarrow> Some (pu, uid) | _ \<Rightarrow> None),
              clip_visible_uids = visible_uids \<rparr>))"

section \<open>Concrete scenes and a concrete encoder\<close>

text \<open>The three cubes of \<^verbatim>\<open>create_scene\<close> (bodies 0 and 1 are the plane and the robot).\<close>

definition scene_meta :: "(int \<times> cube_meta) list" where
  "scene_meta =
     [(2, \<lparr>meta_name = ''red'', meta_color = [1, 0, 0, 1]\<rparr>),
      (3, \<lparr>meta_name = ''green'', meta_color = [0, 1, 0, 1]\<rparr>),
      (4, \<lparr>meta_name = ''blue'', meta_color = [0, 0, 1, 1]\<rparr>)]"

definition scene_objects :: "(int \<times> ObjectInfo) list" where
  "scene_objects =
     [(2, \<lparr>obj_uid = 2, obj_name = ''red'', obj_color = (1, 0, 0, 1),
           obj_home_position = (55 / 100, - 15 / 100, 3 / 100)\<rparr>),
      (3, \<lparr>obj_uid = 3, obj_name = ''green'', obj_color = (0, 1, 0, 1),
           obj_home_position = (55 / 100, 0, 3 / 100)\<rparr>),
      (4, \<lparr>obj_uid = 4, obj_name = ''blue'', obj_color = (0, 0, 1, 1),
           obj_home_position = (55 / 100, 15 / 100, 3 / 100)\<rparr>)]"

text \<open>
  An encoder that tells apart any two different texts: a text has similarity 1 with
  itself (the cosine of a normalised embedding with itself) and less with any other text.
\<close>

definition sim_exact :: similarity where
  "sim_exact a b = (if a = b then 1 else 0)"

definition isim_const :: image_similarity where
  "isim_const a uid = 0"

chapter \<open>Part II: lemmas and theorems\<close>

section \<open>The action executor\<close>

lemma run_call_home:
  "home_pos (run_call self c) = home_pos self \<and> home_rot (run_call self c) = home_rot self"
  by (cases c) (simp_all add: generate_pick_actions_def generate_place_actions_def Let_def
      split: prod.splits)

lemma run_calls_home:
  "home_pos (run_calls cs self) = home_pos self \<and> home_rot (run_calls cs self) = home_rot self"
  unfolding run_calls_def
proof (induction cs arbitrary: self)
  case Nil
  show ?case by simp
next
  case (Cons c cs)
  show ?case using Cons.IH [of "run_call self c"] run_call_home [of self c] by simp
qed

lemma pick_actions_frame:
  "home_rot a = home_rot b \<Longrightarrow>
   fst (generate_pick_actions a pos is_final) = fst (generate_pick_actions b pos is_final)"
  by (simp add: generate_pick_actions_def Let_def split: prod.splits)

lemma place_actions_frame:
  "home_rot a = home_rot b \<Longrightarrow> home_pos a = home_pos b \<Longrightarrow>
   fst (generate_place_actions a pos is_final) = fst (generate_place_actions b pos is_final)"
  by (simp add: generate_place_actions_def Let_def split: prod.splits)

lemma calls_mutate_gripper:
  "gripper_open (run_calls [PickCall p f] ActionExecutor_init) = 0 \<and>
   gripper_open (run_calls [PickCall p f, PlaceCall q g] ActionExecutor_init) = 1"
  by (simp add: run_calls_def generate_pick_actions_def generate_place_actions_def
      ActionExecutor_init_def Let_def split: prod.splits)

text \<open>
  Claim C8.  A place sequence generated with \<open>is_final = True\<close> has exactly five
  vectors whose terminate flags are \<open>0, 0, 0, 0, 1\<close>; and in the transaction
  pick (\<open>is_final = False\<close>) then place (\<open>is_final = True\<close>) on the same executor the
  nine flags are \<open>0, ..., 0, 1\<close>: exactly one vector carries terminate = 1, and it is
  the last vector of the place subtask.
\<close>

theorem place_final_terminates_once:
  "map terminate_of (fst (generate_place_actions self pos True)) = [0, 0, 0, 0, 1] \<and>
   (let pick = generate_pick_actions self pos1 False;
        place = generate_place_actions (snd pick) pos2 True
    in map terminate_of (fst pick @ fst place) = [0, 0, 0, 0, 0, 0, 0, 0, 1] \<and>
       length (filter (\<lambda>a. terminate_of a = 1) (fst pick @ fst place)) = 1 \<and>
       terminate_of (last (fst place)) = 1)"
  by (simp add: generate_place_actions_def generate_pick_actions_def mk_action_def
      terminate_of_def Let_def split: prod.splits)

text \<open>
  Claim C9.  Whatever calls were made before on the executor (each of them may change
  \<open>gripper_open\<close>, see \<open>calls_mutate_gripper\<close>), the sequence returned for given
  arguments \<open>(pos, is_final)\<close> is the same: two executors that went through any two
  histories return identical pick sequences and identical place sequences.
\<close>

theorem generated_actions_history_independent:
  "fst (generate_pick_actions (run_calls h1 ActionExecutor_init) pos is_final) =
   fst (generate_pick_actions (run_calls h2 ActionExecutor_init) pos is_final) \<and>
   fst (generate_place_actions (run_calls h1 ActionExecutor_init) pos is_final) =
   fst (generate_place_actions (run_calls h2 ActionExecutor_init) pos is_final)"
proof -
  have r: "home_rot (run_calls h1 ActionExecutor_init) = home_rot (run_calls h2 ActionExecutor_init)"
    using run_calls_home [of h1 ActionExecutor_init] run_calls_home [of h2 ActionExecutor_init]
    by simp
  have p: "home_pos (run_calls h1 ActionExecutor_init) = home_pos (run_calls h2 ActionExecutor_init)"
    using run_calls_home [of h1 ActionExecutor_init] run_calls_home [of h2 ActionExecutor_init]
    by simp
  show ?thesis
    using pick_actions_frame [OF r] place_actions_frame [OF r p] by simp
qed


section \<open>Single-precision rounding\<close>

lemma up2_bounds: "1 \<le> x \<Longrightarrow> 2 ^ up2 x \<le> x \<and> x < 2 ^ Suc (up2 x)"
proof (induction x rule: up2.induct)
  case (1 x)
  show ?case
  proof (cases "2 \<le> x")
    case True
    then have "1 \<le> x / 2" by simp
    with 1 True have "2 ^ up2 (x / 2) \<le> x / 2 \<and> x / 2 < 2 ^ Suc (up2 (x / 2))" by blast
    moreover have "up2 x = Suc (up2 (x / 2))" using True by (subst up2.simps) simp
    ultimately show ?thesis by simp
  next
    case False
    then have "up2 x = 0" by (subst up2.simps) simp
    then show ?thesis using False 1 by simp
  qed
qed

lemma down2_bounds: "0 < x \<Longrightarrow> x < 1 \<Longrightarrow> 1 \<le> 2 ^ down2 x * x \<and> 2 ^ down2 x * x < 2 \<and> 0 < down2 x"
proof (induction x rule: down2.induct)
  case (1 x)
  have d: "down2 x = Suc (down2 (2 * x))" using 1 by (subst down2.simps) simp
  show ?case
  proof (cases "2 * x < 1")
    case True
    with 1 have "1 \<le> 2 ^ down2 (2 * x) * (2 * x) \<and> 2 ^ down2 (2 * x) * (2 * x) < 2" by simp
    then show ?thesis using d by (simp add: mult.assoc mult.left_commute)
  next
    case False
    then have "down2 (2 * x) = 0" by (subst down2.simps) simp
    then show ?thesis using d False 1 by simp
  qed
qed

lemma expo_bounds:
  assumes "0 < x"
  shows "2 powi expo x \<le> x \<and> x < 2 powi (expo x + 1)"
proof (cases "1 \<le> x")
  case True
  then have "expo x = int (up2 x)" by (simp add: expo_def)
  moreover have "2 powi (int (up2 x) + 1) = (2::real) ^ Suc (up2 x)"
    by (simp add: power_int_add)
  ultimately show ?thesis using up2_bounds [OF True] by simp
next
  case False
  then have x1: "x < 1" by simp
  let ?k = "down2 x"
  have e: "expo x = - int ?k" using False by (simp add: expo_def)
  have b: "1 \<le> 2 ^ ?k * x" "2 ^ ?k * x < 2" "0 < ?k"
    using down2_bounds [OF assms x1] by simp_all
  have p: "(2::real) powi (- int ?k) = 1 / 2 ^ ?k"
    by (simp add: power_int_minus_divide)
  have "(2::real) powi (- int ?k + 1) = 2 powi (- int ?k) * 2 powi 1"
    by (rule power_int_add) simp
  then have q: "(2::real) powi (- int ?k + 1) = 2 / 2 ^ ?k"
    using p by simp
  have "1 / 2 ^ ?k \<le> x" using b(1) by (simp add: field_simps)
  moreover have "x < 2 / 2 ^ ?k" using b(2) by (simp add: field_simps)
  ultimately show ?thesis using e p q by simp
qed

lemma pow2_less_iff [simp]: "(2::real) powi m < 2 powi n \<longleftrightarrow> m < n"
proof
  assume h: "(2::real) powi m < 2 powi n"
  show "m < n"
  proof (rule ccontr)
    assume "\<not> m < n"
    then have "n \<le> m" by simp
    then have "(2::real) powi n \<le> 2 powi m" by (intro power_int_increasing) simp_all
    with h show False by simp
  qed
next
  assume "m < n"
  then show "(2::real) powi m < 2 powi n" by (intro power_int_strict_increasing) simp_all
qed

lemma pow2_le_iff [simp]: "(2::real) powi m \<le> 2 powi n \<longleftrightarrow> m \<le> n"
  using pow2_less_iff [of n m] by (simp only: not_less [symmetric])

lemma pow2_pos [simp]: "0 < (2::real) powi n"
  by (simp add: zero_less_power_int)

lemma expo_unique:
  assumes "0 < x" "2 powi e \<le> x" "x < 2 powi (e + 1)"
  shows "expo x = e"
proof -
  have "2 powi expo x < (2::real) powi (e + 1)" using expo_bounds [OF assms(1)] assms(3) by linarith
  then have a: "expo x < e + 1" by simp
  have "2 powi e < (2::real) powi (expo x + 1)" using expo_bounds [OF assms(1)] assms(2) by linarith
  then have "e < expo x + 1" by simp
  with a show ?thesis by simp
qed

lemma expo_mono: "0 < x \<Longrightarrow> x \<le> y \<Longrightarrow> expo x \<le> expo y"
proof -
  assume h: "0 < x" "x \<le> y"
  then have "2 powi expo x < (2::real) powi (expo y + 1)"
    using expo_bounds [of x] expo_bounds [of y] by linarith
  then show ?thesis by simp
qed

lemma rne_cases:
  obtains (down) "rne x = \<lfloor>x\<rfloor>" "x - of_int \<lfloor>x\<rfloor> \<le> 1 / 2"
        | (up) "rne x = \<lfloor>x\<rfloor> + 1" "1 / 2 \<le> x - of_int \<lfloor>x\<rfloor>"
  unfolding rne_def Let_def by (cases "x - of_int \<lfloor>x\<rfloor> < 1 / 2"; cases "1 / 2 < x - of_int \<lfloor>x\<rfloor>"; cases "even \<lfloor>x\<rfloor>"; simp)

lemma rne_bounds: "x - 1 / 2 \<le> of_int (rne x) \<and> of_int (rne x) \<le> x + 1 / 2"
proof (cases x rule: rne_cases)
  case down
  then show ?thesis by simp linarith
next
  case up
  then show ?thesis by simp linarith
qed

lemma rne_of_int [simp]: "rne (of_int n) = n"
  by (simp add: rne_def)

lemma rne_mono: "x \<le> y \<Longrightarrow> rne x \<le> rne y"
proof -
  assume h: "x \<le> y"
  have fl: "\<lfloor>x\<rfloor> \<le> \<lfloor>y\<rfloor>" using h by (rule floor_mono)
  show ?thesis
  proof (cases "\<lfloor>x\<rfloor> = \<lfloor>y\<rfloor>")
    case True
    have "x - of_int \<lfloor>x\<rfloor> \<le> y - of_int \<lfloor>x\<rfloor>" using h by simp
    then show ?thesis unfolding rne_def Let_def True [symmetric] by simp
  next
    case False
    then have "\<lfloor>x\<rfloor> + 1 \<le> \<lfloor>y\<rfloor>" using fl by simp
    moreover have "rne x \<le> \<lfloor>x\<rfloor> + 1" by (cases x rule: rne_cases) simp_all
    moreover have "\<lfloor>y\<rfloor> \<le> rne y" by (cases y rule: rne_cases) simp_all
    ultimately show ?thesis by linarith
  qed
qed


lemma rne_minus: "rne (- x) = - rne x"
proof (cases "x = of_int \<lfloor>x\<rfloor>")
  case True
  then have "- x = of_int (- \<lfloor>x\<rfloor>)" by simp
  then have "rne (- x) = - \<lfloor>x\<rfloor>" using rne_of_int by metis
  moreover have "rne x = \<lfloor>x\<rfloor>" using True rne_of_int by metis
  ultimately show ?thesis by simp
next
  case False
  have lo: "of_int \<lfloor>x\<rfloor> < x" using False floor_le_iff le_less of_int_floor_le by metis
  have hi: "x < of_int \<lfloor>x\<rfloor> + 1" by linarith
  have c: "of_int (- \<lfloor>x\<rfloor> - 1) = - of_int \<lfloor>x\<rfloor> - (1::real)" by simp
  have "of_int (- \<lfloor>x\<rfloor> - 1) \<le> - x" unfolding c using hi by linarith
  moreover have "- x < of_int (- \<lfloor>x\<rfloor> - 1) + 1" unfolding c using lo by linarith
  ultimately have f: "\<lfloor>- x\<rfloor> = - \<lfloor>x\<rfloor> - 1"
    by (rule floor_unique)
  show ?thesis
  proof (cases "x - of_int \<lfloor>x\<rfloor> < 1 / 2")
    case True
    then show ?thesis unfolding rne_def Let_def f by simp
  next
    case nlt: False
    show ?thesis
    proof (cases "1 / 2 < x - of_int \<lfloor>x\<rfloor>")
      case True
      then show ?thesis unfolding rne_def Let_def f by simp
    next
      case False
      with nlt have "x - of_int \<lfloor>x\<rfloor> = 1 / 2" by simp
      then show ?thesis unfolding rne_def Let_def f by simp
    qed
  qed
qed

lemma fl32_ulp: "fl32 x = ulp32 x * of_int (rne (x / ulp32 x))"
  by (simp add: fl32_def ulp32_def Let_def)

lemma ulp32_pos [simp]: "0 < ulp32 x"
  by (simp add: ulp32_def)

lemma ulp32_nonneg [simp]: "0 \<le> ulp32 x"
  by (simp add: ulp32_def less_imp_le)

lemma ulp32_neq0 [simp]: "ulp32 x \<noteq> 0"
  using ulp32_pos [of x] by linarith

lemma ulp32_minus [simp]: "ulp32 (- x) = ulp32 x"
  by (simp add: ulp32_def)

lemma fl32_minus: "fl32 (- x) = - fl32 x"
  by (simp add: fl32_ulp rne_minus)

lemma fl32_0 [simp]: "fl32 0 = 0"
  using rne_of_int [of 0] by (simp add: fl32_ulp)

lemma fl32_nonneg: "0 \<le> x \<Longrightarrow> 0 \<le> fl32 x"
proof -
  assume "0 \<le> x"
  then have "0 \<le> x / ulp32 x" by simp
  then have "rne 0 \<le> rne (x / ulp32 x)" by (rule rne_mono)
  moreover have "rne 0 = 0" using rne_of_int [of 0] by simp
  ultimately show ?thesis by (simp add: fl32_ulp)
qed

lemma fl32_err: "\<bar>fl32 x - x\<bar> \<le> ulp32 x / 2"
proof -
  let ?u = "ulp32 x"
  have b: "x / ?u - 1 / 2 \<le> of_int (rne (x / ?u))" "of_int (rne (x / ?u)) \<le> x / ?u + 1 / 2"
    using rne_bounds [of "x / ?u"] by simp_all
  have "?u * (x / ?u - 1 / 2) \<le> ?u * of_int (rne (x / ?u))"
    using b(1) by (intro mult_left_mono) simp_all
  moreover have "?u * of_int (rne (x / ?u)) \<le> ?u * (x / ?u + 1 / 2)"
    using b(2) by (intro mult_left_mono) simp_all
  moreover have "?u * (x / ?u - 1 / 2) = x - ?u / 2" "?u * (x / ?u + 1 / 2) = x + ?u / 2"
    by (simp_all add: field_simps)
  ultimately have "x - ?u / 2 \<le> fl32 x" "fl32 x \<le> x + ?u / 2"
    by (simp_all add: fl32_ulp)
  then show ?thesis by linarith
qed


lemma tiny32_pos [simp]: "0 < tiny32"
  unfolding tiny32_def by (rule pow2_pos)

lemma tiny32_nonneg [simp]: "0 \<le> tiny32"
  using tiny32_pos by (rule less_imp_le)

lemma tiny32_neq0 [simp]: "tiny32 \<noteq> 0"
  using tiny32_pos by linarith

lemma pow2_add: "(2::real) powi a * 2 powi b = 2 powi (a + b)"
  by (rule power_int_add [symmetric]) simp

lemma ulp32_le:
  assumes "0 < x"
  shows "ulp32 x \<le> max (x / 2 ^ 23) tiny32"
proof (cases "- 126 \<le> expo x")
  case True
  then have "ulp32 x = 2 powi (expo x - 23)" using assms by (simp add: ulp32_def max_def)
  also have "\<dots> = 2 powi expo x / 2 ^ 23" by (simp add: power_int_diff)
  also have "\<dots> \<le> x / 2 ^ 23" using expo_bounds [OF assms] by (simp add: divide_right_mono)
  finally show ?thesis by simp
next
  case False
  then have "max (expo \<bar>x\<bar>) (- 126) - 23 = - 149" using assms by (simp add: max_def)
  then have "ulp32 x = tiny32" unfolding ulp32_def tiny32_def by (simp only:)
  then show ?thesis by simp
qed

lemma fl32_mono_pos:
  assumes "0 < x" "x \<le> y"
  shows "fl32 x \<le> fl32 y"
proof -
  let ?ex = "max (expo x) (- 126)" and ?ey = "max (expo y) (- 126)"
  have y0: "0 < y" using assms by simp
  have ux: "ulp32 x = 2 powi (?ex - 23)" using assms by (simp add: ulp32_def)
  have uy: "ulp32 y = 2 powi (?ey - 23)" using y0 by (simp add: ulp32_def)
  have le: "?ex \<le> ?ey" using expo_mono [OF assms] by simp
  show ?thesis
  proof (cases "?ex = ?ey")
    case True
    then have u: "ulp32 y = ulp32 x" using ux uy by simp
    have "x / ulp32 x \<le> y / ulp32 x" using assms by (simp add: divide_right_mono)
    then have "rne (x / ulp32 x) \<le> rne (y / ulp32 x)" by (rule rne_mono)
    then have "ulp32 x * of_int (rne (x / ulp32 x)) \<le> ulp32 x * of_int (rne (y / ulp32 x))"
      by (intro mult_left_mono) simp_all
    then show ?thesis by (simp add: fl32_ulp u)
  next
    case False
    with le have lt: "?ex + 1 \<le> ?ey" by simp
    then have ey: "?ey = expo y" by (simp add: max_def split: if_splits)
    have "x < 2 powi (expo x + 1)" using expo_bounds [OF assms(1)] by simp
    also have "\<dots> \<le> 2 powi (?ex + 1)" by simp
    finally have "x / ulp32 x \<le> 2 powi (?ex + 1) / ulp32 x"
      by (simp add: divide_right_mono less_imp_le)
    also have "2 powi (?ex + 1) / ulp32 x = 2 powi ((?ex + 1) - (?ex - 23))"
      unfolding ux by (rule power_int_diff [symmetric]) simp
    also have "\<dots> = of_int (2 ^ 24)" by simp
    finally have "rne (x / ulp32 x) \<le> rne (of_int (2 ^ 24))" by (rule rne_mono)
    then have "rne (x / ulp32 x) \<le> 2 ^ 24" by (simp only: rne_of_int)
    then have "of_int (rne (x / ulp32 x)) \<le> (2 ^ 24 :: real)"
      by (metis of_int_le_iff of_int_numeral of_int_power)
    then have "ulp32 x * of_int (rne (x / ulp32 x)) \<le> ulp32 x * 2 ^ 24"
      by (intro mult_left_mono) simp_all
    also have "ulp32 x * 2 ^ 24 = 2 powi (?ex - 23) * 2 powi 24" unfolding ux by simp
    also have "\<dots> = 2 powi (?ex + 1)"
      by (subst power_int_add [symmetric]) (simp_all add: add.commute)
    finally have a: "fl32 x \<le> 2 powi (?ex + 1)" unfolding fl32_ulp .
    have "2 powi ?ey \<le> y" using expo_bounds [OF y0] ey by simp
    then have "2 powi ?ey / ulp32 y \<le> y / ulp32 y" by (simp add: divide_right_mono)
    moreover have "2 powi ?ey / ulp32 y = 2 powi (?ey - (?ey - 23))"
      unfolding uy by (rule power_int_diff [symmetric]) simp
    moreover have "(2::real) powi (?ey - (?ey - 23)) = of_int (2 ^ 23)" by simp
    ultimately have "of_int (2 ^ 23) \<le> y / ulp32 y" by simp
    then have "rne (of_int (2 ^ 23)) \<le> rne (y / ulp32 y)" by (rule rne_mono)
    then have "2 ^ 23 \<le> rne (y / ulp32 y)" by (simp only: rne_of_int)
    then have "(2 ^ 23 :: real) \<le> of_int (rne (y / ulp32 y))"
      by (metis of_int_le_iff of_int_numeral of_int_power)
    then have "ulp32 y * 2 ^ 23 \<le> ulp32 y * of_int (rne (y / ulp32 y))"
      by (intro mult_left_mono) simp_all
    moreover have "ulp32 y * 2 ^ 23 = 2 powi (?ey - 23) * 2 powi 23" unfolding uy by simp
    moreover have "2 powi (?ey - 23) * 2 powi 23 = (2::real) powi ?ey"
      by (subst power_int_add [symmetric]) simp_all
    ultimately have b: "2 powi ?ey \<le> fl32 y" unfolding fl32_ulp by linarith
    have "(2::real) powi (?ex + 1) \<le> 2 powi ?ey" using lt by simp
    with a b show ?thesis by linarith
  qed
qed

lemma fl32_mono:
  assumes "x \<le> y"
  shows "fl32 x \<le> fl32 y"
proof -
  consider "0 < x" | "x \<le> 0" "0 \<le> y" | "y < 0" by linarith
  then show ?thesis
  proof cases
    case 1
    then show ?thesis using assms by (rule fl32_mono_pos)
  next
    case 2
    have "0 \<le> fl32 (- x)" using 2 by (intro fl32_nonneg) simp
    then have "fl32 x \<le> 0" by (simp add: fl32_minus)
    moreover have "0 \<le> fl32 y" using 2 by (intro fl32_nonneg)
    ultimately show ?thesis by simp
  next
    case 3
    then have "fl32 (- y) \<le> fl32 (- x)" using assms by (intro fl32_mono_pos) simp_all
    then show ?thesis by (simp add: fl32_minus)
  qed
qed



lemma fl32_abs: "\<bar>fl32 x\<bar> = fl32 \<bar>x\<bar>"
proof (cases "0 \<le> x")
  case True
  then show ?thesis using fl32_nonneg [of x] by simp
next
  case False
  then have "0 \<le> fl32 (- x)" by (intro fl32_nonneg) simp
  then show ?thesis using False by (simp add: fl32_minus)
qed

lemma fl32_tiny32: "fl32 tiny32 = tiny32"
proof -
  have "expo tiny32 = - 149"
    unfolding tiny32_def
  proof (rule expo_unique)
    show "0 < (2::real) powi (- 149)" by (rule pow2_pos)
    show "(2::real) powi (- 149) \<le> 2 powi (- 149)" by (rule order_refl)
    show "(2::real) powi (- 149) < 2 powi (- 149 + 1)" by (subst pow2_less_iff) simp
  qed
  then have "max (expo \<bar>tiny32\<bar>) (- 126) - 23 = - 149" by (simp add: less_imp_le)
  then have u: "ulp32 tiny32 = tiny32" unfolding ulp32_def tiny32_def by (simp only:)
  have "tiny32 / tiny32 = of_int 1" by simp
  then have "rne (tiny32 / tiny32) = 1" by (simp only: rne_of_int)
  then show ?thesis unfolding fl32_ulp u by simp
qed

lemma fl32_nonzero:
  assumes "tiny32 \<le> \<bar>z\<bar>"
  shows "fl32 z \<noteq> 0"
proof -
  have "fl32 tiny32 \<le> fl32 \<bar>z\<bar>" using assms by (rule fl32_mono)
  then have "0 < fl32 \<bar>z\<bar>" using tiny32_pos by (simp only: fl32_tiny32)
  then show ?thesis using fl32_abs [of z] by simp
qed

lemma representable32_grid:
  assumes "representable32 a"
  shows "\<exists>n::int. a = of_int n * tiny32"
proof -
  let ?e = "max (expo \<bar>a\<bar>) (- 126)"
  have "0 \<le> ?e + 126" by simp
  then have "(2::real) powi (?e + 126) = of_int (2 ^ nat (?e + 126))"
    by (simp add: power_int_def)
  moreover have "?e - 23 = (?e + 126) + (- 149)" by simp
  then have "(2::real) powi (?e - 23) = 2 powi (?e + 126) * 2 powi (- 149)"
    by (simp only: pow2_add)
  ultimately have "ulp32 a = of_int (2 ^ nat (?e + 126)) * tiny32"
    unfolding ulp32_def tiny32_def by (simp only:)
  then have "fl32 a = of_int (2 ^ nat (?e + 126) * rne (a / ulp32 a)) * tiny32"
    unfolding fl32_ulp by simp
  then show ?thesis using assms unfolding representable32_def by metis
qed

lemma fl32_sub_nonzero:
  assumes "representable32 a" "representable32 b" "a \<noteq> b"
  shows "fl32 (a - b) \<noteq> 0"
proof -
  obtain n m :: int where a: "a = of_int n * tiny32" and b: "b = of_int m * tiny32"
    using representable32_grid assms(1,2) by blast
  have nm: "n \<noteq> m" using assms(3) a b by auto
  have "a - b = of_int (n - m) * tiny32" using a b by (simp add: algebra_simps)
  then have "\<bar>a - b\<bar> = of_int \<bar>n - m\<bar> * tiny32"
    by (simp add: abs_mult abs_of_pos)
  moreover have "(1::real) \<le> of_int \<bar>n - m\<bar>" using nm by (simp add: int_one_le_iff_zero_less)
  then have "1 * tiny32 \<le> of_int \<bar>n - m\<bar> * tiny32"
    by (intro mult_right_mono) simp_all
  ultimately have "tiny32 \<le> \<bar>a - b\<bar>" by simp
  then show ?thesis by (rule fl32_nonzero)
qed

lemma fl32_separated:
  assumes "0 \<le> y" "y < x" "x \<le> R" "R / 2 ^ 23 + tiny32 < x - y"
  shows "fl32 y < fl32 x"
proof -
  define c where "c = R / 2 ^ 23 + tiny32"
  have x0: "0 < x" using assms by simp
  have R0: "0 < R" using assms by simp
  have c0: "0 < c" unfolding c_def using R0 by (simp add: add_pos_pos)
  have bound: "ulp32 z \<le> c" if "0 < z" "z \<le> R" for z
  proof -
    have "z / 2 ^ 23 \<le> R / 2 ^ 23" using that by (simp add: divide_right_mono)
    moreover have "0 < R / 2 ^ 23" using R0 by simp
    ultimately have "z / 2 ^ 23 \<le> c" "tiny32 \<le> c"
      unfolding c_def using tiny32_pos by linarith+
    then have "max (z / 2 ^ 23) tiny32 \<le> c" by (simp only: max_def split: if_split) simp
    with ulp32_le [OF that(1)] show ?thesis by linarith
  qed
  have ex: "x - c / 2 \<le> fl32 x" using fl32_err [of x] bound [OF x0 assms(3)] by linarith
  have ey: "fl32 y \<le> y + c / 2"
  proof (cases "y = 0")
    case True
    then show ?thesis using c0 by simp
  next
    case False
    then have "0 < y" "y \<le> R" using assms by simp_all
    then show ?thesis using fl32_err [of y] bound [of y] by linarith
  qed
  have "c < x - y" using assms(4) unfolding c_def .
  then show ?thesis using ex ey by linarith
qed

section \<open>The action tokenizer\<close>

lemma argmin_first_less: "xs \<noteq> [] \<Longrightarrow> argmin_first xs < length xs"
  by (induction xs rule: argmin_first.induct) (simp_all add: Let_def)

lemma argmin_first_le: "j < length xs \<Longrightarrow> xs ! argmin_first xs \<le> xs ! j"
proof (induction xs arbitrary: j rule: argmin_first.induct)
  case 1
  then show ?case by simp
next
  case (2 x)
  then show ?case by simp
next
  case (3 x y ys)
  let ?r = "argmin_first (y # ys)"
  show ?case
  proof (cases j)
    case 0
    then show ?thesis by (simp add: Let_def)
  next
    case (Suc k)
    then have "k < length (y # ys)" using 3(2) by simp
    then have "(y # ys) ! ?r \<le> (y # ys) ! k" by (rule 3(1))
    then show ?thesis using Suc by (auto simp: Let_def)
  qed
qed

lemma argmin_first_strict: "j < argmin_first xs \<Longrightarrow> xs ! argmin_first xs < xs ! j"
proof (induction xs arbitrary: j rule: argmin_first.induct)
  case 1
  then show ?case by simp
next
  case (2 x)
  then show ?case by simp
next
  case (3 x y ys)
  let ?r = "argmin_first (y # ys)"
  from 3(2) have nz: "\<not> x \<le> (y # ys) ! ?r" by (auto simp: Let_def split: if_splits)
  then have r: "argmin_first (x # y # ys) = Suc ?r" by (simp add: Let_def)
  show ?case
  proof (cases j)
    case 0
    then show ?thesis using nz r by simp
  next
    case (Suc k)
    then have "k < ?r" using 3(2) r by simp
    then have "(y # ys) ! ?r < (y # ys) ! k" by (rule 3(1))
    then show ?thesis using Suc r by simp
  qed
qed

lemma argmin_first_eqI:
  assumes "i < length xs" "\<And>j. j < length xs \<Longrightarrow> xs ! i \<le> xs ! j"
    "\<And>j. j < i \<Longrightarrow> xs ! i < xs ! j"
  shows "argmin_first xs = i"
proof -
  let ?r = "argmin_first xs"
  have ne: "xs \<noteq> []" using assms(1) by auto
  have rl: "?r < length xs" using ne by (rule argmin_first_less)
  show ?thesis
  proof (rule ccontr)
    assume "?r \<noteq> i"
    then consider "?r < i" | "i < ?r" by linarith
    then show False
    proof cases
      case 1
      then have "xs ! i < xs ! ?r" by (rule assms(3))
      moreover have "xs ! ?r \<le> xs ! i" using assms(1) by (rule argmin_first_le)
      ultimately show False by simp
    next
      case 2
      then have "xs ! ?r < xs ! i" by (rule argmin_first_strict)
      moreover have "xs ! i \<le> xs ! ?r" using rl by (rule assms(2))
      ultimately show False by simp
    qed
  qed
qed

lemma token_val_bin_center:
  assumes "distinct bins" "\<forall>b\<in>set bins. representable32 b" "i < length bins"
  shows "token_val (bins ! i) bins = Some (int i - 5)"
proof -
  let ?D = "bin_distances bins (bins ! i)"
  have ne: "bins \<noteq> []" using assms(3) by auto
  have ri: "fl32 (bins ! i) = bins ! i"
    using assms(2,3) by (simp add: representable32_def)
  have Dj: "?D ! j = \<bar>fl32 (bins ! j - bins ! i)\<bar>" if "j < length bins" for j
    using that by (simp add: bin_distances_def ri)
  have Di: "?D ! i = 0" using Dj [OF assms(3)] by simp
  have pos: "0 < ?D ! j" if "j < length bins" "j \<noteq> i" for j
  proof -
    have "bins ! j \<noteq> bins ! i"
      using that assms(1,3) by (simp add: nth_eq_iff_index_eq)
    moreover have "representable32 (bins ! j)" "representable32 (bins ! i)"
      using assms(2,3) that by simp_all
    ultimately have "fl32 (bins ! j - bins ! i) \<noteq> 0" by (intro fl32_sub_nonzero)
    then show ?thesis using Dj [OF that(1)] by simp
  qed
  have "argmin_first ?D = i"
  proof (rule argmin_first_eqI)
    show "i < length ?D" using assms(3) by (simp add: bin_distances_def)
  next
    fix j assume "j < length ?D"
    then have "j < length bins" by (simp add: bin_distances_def)
    then show "?D ! i \<le> ?D ! j" using Di Dj by simp
  next
    fix j assume "j < i"
    then have "j < length bins" "j \<noteq> i" using assms(3) by simp_all
    then show "?D ! i < ?D ! j" using pos Di by simp
  qed
  then show ?thesis using ne by (simp add: token_val_def)
qed

lemma dist_left: "b \<le> w \<Longrightarrow> \<bar>fl32 (b - w)\<bar> = fl32 (w - b)"
proof -
  assume "b \<le> w"
  then have "0 \<le> fl32 (w - b)" by (intro fl32_nonneg) simp
  moreover have "fl32 (b - w) = - fl32 (w - b)" using fl32_minus [of "w - b"] by simp
  ultimately show ?thesis by simp
qed

lemma dist_right: "w \<le> b \<Longrightarrow> \<bar>fl32 (b - w)\<bar> = fl32 (b - w)"
proof -
  assume "w \<le> b"
  then have "0 \<le> fl32 (b - w)" by (intro fl32_nonneg) simp
  then show ?thesis by simp
qed

lemma argmin_distances_mono:
  assumes ne: "bins \<noteq> []"
    and sep: "well_separated bins"
    and rep: "representable32 (hd bins)" "representable32 (last bins)"
    and rng: "hd bins \<le> v1" "v1 \<le> v2" "v2 \<le> last bins"
  shows "argmin_first (bin_distances bins v1) \<le> argmin_first (bin_distances bins v2)"
proof (rule ccontr)
  let ?n = "length bins"
  let ?w1 = "fl32 v1" and ?w2 = "fl32 v2"
  let ?D1 = "bin_distances bins v1" and ?D2 = "bin_distances bins v2"
  let ?m = "argmin_first ?D1" and ?k = "argmin_first ?D2"
  let ?c = "resolution32 bins"
  assume "\<not> ?m \<le> ?k"
  then have km: "?k < ?m" by simp
  have len: "length ?D1 = ?n" "length ?D2 = ?n" by (simp_all add: bin_distances_def)
  have "?D1 \<noteq> []" using ne by (simp add: bin_distances_def)
  then have mn: "?m < ?n" using argmin_first_less [of ?D1] len by simp
  then have kn: "?k < ?n" using km by simp
  have w12: "?w1 \<le> ?w2" using rng(2) by (rule fl32_mono)
  have "fl32 v2 \<le> fl32 (last bins)" using rng(3) by (rule fl32_mono)
  then have w2hi: "?w2 \<le> last bins" using rep(2) by (simp add: representable32_def)
  have "fl32 (hd bins) \<le> fl32 v1" using rng(1) by (rule fl32_mono)
  then have w1lo: "hd bins \<le> ?w1" using rep(1) by (simp add: representable32_def)
  have c0: "0 < ?c"
  proof -
    have "0 \<le> (last bins - hd bins) / 2 ^ 23" using rng by simp
    then show ?thesis unfolding resolution32_def using tiny32_pos by linarith
  qed
  have gap: "?c < bins ! j - bins ! i" if "i < j" "j < ?n" for i j
    using sep that unfolding well_separated_def by (simp add: sorted_wrt_iff_nth_less)
  have hd0: "hd bins = bins ! 0" using ne by (simp add: hd_conv_nth)
  have lastn: "last bins = bins ! (?n - 1)" using ne by (simp add: last_conv_nth)
  have lo: "bins ! 0 \<le> bins ! j" if "j < ?n" for j
    using gap [of 0 j] that c0 by (cases "j = 0") simp_all
  have d1: "?D1 ! j = \<bar>fl32 (bins ! j - ?w1)\<bar>" if "j < ?n" for j
    using that by (simp add: bin_distances_def)
  have d2: "?D2 ! j = \<bar>fl32 (bins ! j - ?w2)\<bar>" if "j < ?n" for j
    using that by (simp add: bin_distances_def)
  have bkm: "bins ! ?k < bins ! ?m" using gap [OF km mn] c0 by linarith
  have s1: "?D1 ! ?m < ?D1 ! ?k" using km by (rule argmin_first_strict)
  have s2: "?D2 ! ?k \<le> ?D2 ! ?m" using mn len by (intro argmin_first_le) simp
  have k_left: "bins ! ?k < ?w1"
  proof (rule ccontr)
    assume "\<not> bins ! ?k < ?w1"
    then have a: "?w1 \<le> bins ! ?k" by simp
    then have b: "?w1 \<le> bins ! ?m" using bkm by simp
    have "fl32 (bins ! ?k - ?w1) \<le> fl32 (bins ! ?m - ?w1)"
      using bkm by (intro fl32_mono) simp
    then have "?D1 ! ?k \<le> ?D1 ! ?m"
      using d1 [OF kn] d1 [OF mn] dist_right [OF a] dist_right [OF b] by simp
    with s1 show False by simp
  qed
  have k2: "?D1 ! ?k \<le> ?D2 ! ?k"
  proof -
    have a: "bins ! ?k \<le> ?w1" "bins ! ?k \<le> ?w2" using k_left w12 by simp_all
    have "fl32 (?w1 - bins ! ?k) \<le> fl32 (?w2 - bins ! ?k)"
      using w12 by (intro fl32_mono) simp
    then show ?thesis
      using d1 [OF kn] d2 [OF kn] dist_left [OF a(1)] dist_left [OF a(2)] by simp
  qed
  show False
  proof (cases "?w2 \<le> bins ! ?m")
    case True
    then have b: "?w1 \<le> bins ! ?m" using w12 by simp
    have "fl32 (bins ! ?m - ?w2) \<le> fl32 (bins ! ?m - ?w1)"
      using w12 by (intro fl32_mono) simp
    then have "?D2 ! ?m \<le> ?D1 ! ?m"
      using d1 [OF mn] d2 [OF mn] dist_right [OF True] dist_right [OF b] by simp
    with s1 s2 k2 show False by linarith
  next
    case False
    then have m_left: "bins ! ?m \<le> ?w2" by simp
    have k_left2: "bins ! ?k \<le> ?w2" using k_left w12 by simp
    have "?n - 1 < ?n" using mn by simp
    have "?w2 - bins ! ?k \<le> last bins - hd bins"
      using w2hi lo [OF kn] hd0 by linarith
    moreover have "?c < (?w2 - bins ! ?k) - (?w2 - bins ! ?m)"
      using gap [OF km mn] by simp
    moreover have "0 \<le> ?w2 - bins ! ?m" using m_left by simp
    moreover have "?w2 - bins ! ?m < ?w2 - bins ! ?k" using bkm by simp
    ultimately have "fl32 (?w2 - bins ! ?m) < fl32 (?w2 - bins ! ?k)"
      unfolding resolution32_def by (intro fl32_separated [where R = "last bins - hd bins"])
    then have "?D2 ! ?m < ?D2 ! ?k"
      using d2 [OF kn] d2 [OF mn] dist_left [OF m_left] dist_left [OF k_left2] by simp
    with s2 show False by simp
  qed
qed

lemma upt_0_11: "[0..<11] = [0, 1, 2, 3, 4, 5, 6, 7, 8, 9, 10 :: nat]"
  by code_simp

lemma up2_eval:
  "up2 0 = 0" "up2 1 = 0"
  "up2 (numeral a) = (if 2 \<le> (numeral a :: real) then Suc (up2 (numeral a / 2)) else 0)"
  "up2 (numeral a / numeral b) =
     (if 2 \<le> (numeral a / numeral b :: real) then Suc (up2 (numeral a / numeral b / 2)) else 0)"
  "up2 (1 / numeral b) = 0"
  by (subst up2.simps, simp)+

lemma down2_eval:
  "down2 0 = 0" "down2 1 = 0" "down2 (numeral a) = 0"
  "down2 (numeral a / numeral b) =
     (if (numeral a / numeral b :: real) < 1 then Suc (down2 (2 * (numeral a / numeral b))) else 0)"
  "down2 (1 / numeral b) =
     (if (1 / numeral b :: real) < 1 then Suc (down2 (2 * (1 / numeral b))) else 0)"
  by (subst down2.simps, simp)+

lemmas fl32_eval = fl32_def expo_def rne_def Let_def up2_eval down2_eval

lemma linspace_11:
  "linspace a b 11 =
     [fl32 a, fl32 (a + (b - a) * 1 / 10), fl32 (a + (b - a) * 2 / 10),
      fl32 (a + (b - a) * 3 / 10), fl32 (a + (b - a) * 4 / 10), fl32 (a + (b - a) * 5 / 10),
      fl32 (a + (b - a) * 6 / 10), fl32 (a + (b - a) * 7 / 10), fl32 (a + (b - a) * 8 / 10),
      fl32 (a + (b - a) * 9 / 10), fl32 (a + (b - a) * 10 / 10)]"
  by (simp add: linspace_def upt_0_11)

lemma default_tokenizer_bins:
  "default_tokenizer =
     \<lparr> x_bins = [- (3 / 2), - (5033165 / 4194304), - (7549747 / 8388608),
                 - (5033165 / 8388608), - (5033165 / 16777216), 0,
                 5033165 / 16777216, 5033165 / 8388608, 7549747 / 8388608,
                 5033165 / 4194304, 3 / 2],
       y_bins = [- (3 / 2), - (5033165 / 4194304), - (7549747 / 8388608),
                 - (5033165 / 8388608), - (5033165 / 16777216), 0,
                 5033165 / 16777216, 5033165 / 8388608, 7549747 / 8388608,
                 5033165 / 4194304, 3 / 2],
       z_bins = [0, 13421773 / 134217728, 13421773 / 67108864, 5033165 / 16777216,
                 13421773 / 33554432, 1 / 2, 5033165 / 8388608,
                 11744051 / 16777216, 13421773 / 16777216, 7549747 / 8388608, 1],
       yaw_bins = [- (13176795 / 8388608), - (2635359 / 2097152),
                   - (7906077 / 8388608), - (2635359 / 4194304),
                   - (2635359 / 8388608), 0, 2635359 / 8388608, 2635359 / 4194304,
                   7906077 / 8388608, 2635359 / 2097152, 13176795 / 8388608] \<rparr>"
  apply (simp add: default_tokenizer_def ActionTokenizerV2_init_def linspace_11 Let_def math_pi_def)
  apply (simp add: fl32_eval)
  done

lemma default_axes_wellformed:
  "list_all (\<lambda>bins. length bins = 11 \<and> distinct bins \<and> list_all representable32 bins \<and>
                    well_separated bins)
     (axes default_tokenizer)"
  by (simp add: axes_def default_tokenizer_bins representable32_def fl32_eval well_separated_def
      resolution32_def tiny32_def)

lemma token_val_in_range:
  assumes "length bins = 11"
  shows "\<exists>t. token_val v bins = Some t \<and> - 5 \<le> t \<and> t \<le> 5"
proof -
  have ne: "bin_distances bins v \<noteq> []" using assms by (auto simp: bin_distances_def)
  have "argmin_first (bin_distances bins v) < length (bin_distances bins v)"
    using ne by (rule argmin_first_less)
  then have "argmin_first (bin_distances bins v) < 11"
    using assms by (simp add: bin_distances_def)
  moreover have "bins \<noteq> []" using assms by auto
  ultimately show ?thesis by (simp add: token_val_def)
qed

text \<open>
  Claim C5.  On any axis whose eleven bin values are distinct float32 numbers (as the
  eleven points of \<^verbatim>\<open>torch.linspace\<close> over a non-degenerate range are, and as all
  four axes of the default tokenizer are), discretizing the \<open>i\<close>-th bin value itself
  gives the token with integer \<open>i - 5\<close>.
\<close>

theorem discretize_bin_center:
  assumes "length bins = 11" and "distinct bins" and "list_all representable32 bins"
    and "i < 11"
  shows "discretize (bins ! i) bins prefix = Some (prefix @ ''_'' @ format_signed (int i - 5))"
proof -
  have "\<forall>b\<in>set bins. representable32 b" using assms(3) by (simp add: list_all_iff)
  moreover have "i < length bins" using assms(1,4) by simp
  ultimately have "token_val (bins ! i) bins = Some (int i - 5)"
    using assms(2) by (intro token_val_bin_center)
  then show ?thesis by (simp add: discretize_def)
qed

theorem discretize_bin_center_witness:
  "list_all (\<lambda>bins. list_all (\<lambda>i. discretize (bins ! i) bins ''POS'' =
                                     Some (''POS_'' @ format_signed (int i - 5)))
                              [0, 1, 2, 3, 4, 5, 6, 7, 8, 9, 10])
            (axes default_tokenizer) \<and>
   discretize (x_bins default_tokenizer ! 8) (x_bins default_tokenizer) ''POS_X'' =
     Some ''POS_X_+3''"
proof -
  have a: "\<forall>bins\<in>set (axes default_tokenizer).
             length bins = 11 \<and> distinct bins \<and> list_all representable32 bins"
    using default_axes_wellformed by (simp add: list_all_iff)
  have "\<forall>bins\<in>set (axes default_tokenizer). \<forall>i\<in>set [0, 1, 2, 3, 4, 5, 6, 7, 8, 9, 10].
          discretize (bins ! i) bins ''POS'' = Some (''POS_'' @ format_signed (int i - 5))"
  proof (intro ballI)
    fix bins :: "real list" and i :: nat
    assume b: "bins \<in> set (axes default_tokenizer)"
      and i: "i \<in> set [0, 1, 2, 3, 4, 5, 6, 7, 8, 9, 10]"
    from i have "i < 11" by auto
    with a b show "discretize (bins ! i) bins ''POS'' = Some (''POS_'' @ format_signed (int i - 5))"
      using discretize_bin_center [of bins i "''POS''"] by simp
  qed
  then have first: "list_all (\<lambda>bins. list_all (\<lambda>i. discretize (bins ! i) bins ''POS'' =
                                     Some (''POS_'' @ format_signed (int i - 5)))
                              [0, 1, 2, 3, 4, 5, 6, 7, 8, 9, 10])
            (axes default_tokenizer)"
    by (simp only: list_all_iff)
  have "x_bins default_tokenizer \<in> set (axes default_tokenizer)" by (simp add: axes_def)
  with a have "discretize (x_bins default_tokenizer ! 8) (x_bins default_tokenizer) ''POS_X'' =
      Some (''POS_X'' @ ''_'' @ format_signed (int 8 - 5))"
    using discretize_bin_center [of "x_bins default_tokenizer" 8 "''POS_X''"] by simp
  then have "discretize (x_bins default_tokenizer ! 8) (x_bins default_tokenizer) ''POS_X'' =
      Some ''POS_X_+3''"
    by (simp add: format_signed_def nat_digits.simps)
  with first show ?thesis by simp
qed

text \<open>
  Claim C6.  On an axis whose bins are float32 numbers lying further apart than the
  float32 resolution of the range (true of evenly spaced bins, and checked for the four
  default axes), the token integer is monotonic non-decreasing in the input over the
  range from the first bin to the last.
\<close>

theorem discretize_monotone:
  assumes "length bins = 11" and "well_separated bins" and "list_all representable32 bins"
    and "hd bins \<le> v1" and "v1 \<le> v2" and "v2 \<le> last bins"
  shows "\<exists>t1 t2. discretize v1 bins prefix = Some (prefix @ ''_'' @ format_signed t1) \<and>
                 discretize v2 bins prefix = Some (prefix @ ''_'' @ format_signed t2) \<and>
                 t1 \<le> t2"
proof -
  have ne: "bins \<noteq> []" using assms(1) by auto
  have rep: "representable32 (hd bins)" "representable32 (last bins)"
    using assms(3) ne by (simp_all add: list_all_iff)
  have "argmin_first (bin_distances bins v1) \<le> argmin_first (bin_distances bins v2)"
    using ne assms(2) rep assms(4-6) by (rule argmin_distances_mono)
  then have "int (argmin_first (bin_distances bins v1)) - 5
               \<le> int (argmin_first (bin_distances bins v2)) - 5" by simp
  moreover have "discretize v1 bins prefix =
      Some (prefix @ ''_'' @ format_signed (int (argmin_first (bin_distances bins v1)) - 5))"
    "discretize v2 bins prefix =
      Some (prefix @ ''_'' @ format_signed (int (argmin_first (bin_distances bins v2)) - 5))"
    using ne by (simp_all add: discretize_def token_val_def)
  ultimately show ?thesis by blast
qed

theorem discretize_monotone_witness:
  "\<exists>t1 t2. discretize (- 7 / 10) (x_bins default_tokenizer) ''POS_X'' =
              Some (''POS_X'' @ ''_'' @ format_signed t1) \<and>
           discretize (2 / 5) (x_bins default_tokenizer) ''POS_X'' =
              Some (''POS_X'' @ ''_'' @ format_signed t2) \<and>
           t1 \<le> t2"
proof -
  have "x_bins default_tokenizer \<in> set (axes default_tokenizer)" by (simp add: axes_def)
  then have a: "length (x_bins default_tokenizer) = 11" "well_separated (x_bins default_tokenizer)"
      "list_all representable32 (x_bins default_tokenizer)"
    using default_axes_wellformed by (simp_all add: list_all_iff)
  have b: "hd (x_bins default_tokenizer) \<le> - 7 / 10" "(- 7 / 10 :: real) \<le> 2 / 5"
      "2 / 5 \<le> last (x_bins default_tokenizer)"
    by (simp_all add: default_tokenizer_bins)
  show ?thesis
    using discretize_monotone [OF a b, of "''POS_X''"] by simp
qed

text \<open>
  Claim C7.  The docstring of \<^verbatim>\<open>discretize\<close> says "Find closest bin index".  For the
  input \<open>10 ^ 8\<close> on the x axis the closest bin is the last one (index 10, token
  \<open>+5\<close>), but all eleven float32 differences \<^verbatim>\<open>bins - value\<close> round to \<open>- 10 ^ 8\<close>,
  so the first index wins and the token is \<^verbatim>\<open>POS_X_-5\<close>.
\<close>

lemma argmin_first_replicate: "argmin_first (replicate 11 c) = 0"
  by (simp add: eval_nat_numeral)

theorem discretize_far_input_first_bin:
  "discretize (10 ^ 8) (x_bins default_tokenizer) ''POS_X'' = Some ''POS_X_-5'' \<and>
   bin_distances (x_bins default_tokenizer) (10 ^ 8) = replicate 11 (10 ^ 8) \<and>
   argmin_first (map (\<lambda>b. \<bar>b - 10 ^ 8\<bar>) (x_bins default_tokenizer)) = 10"
proof -
  have d0: "bin_distances (x_bins default_tokenizer) (10 ^ 8) =
      [10 ^ 8, 10 ^ 8, 10 ^ 8, 10 ^ 8, 10 ^ 8, 10 ^ 8, 10 ^ 8, 10 ^ 8, 10 ^ 8, 10 ^ 8, 10 ^ 8]"
    apply (simp add: default_tokenizer_bins bin_distances_def)
    apply (simp add: fl32_eval)
    done
  have d: "bin_distances (x_bins default_tokenizer) (10 ^ 8) = replicate 11 (10 ^ 8)"
    unfolding d0 by (simp add: eval_nat_numeral)
  have ne: "x_bins default_tokenizer \<noteq> []" by (simp add: default_tokenizer_bins)
  have "token_val (10 ^ 8) (x_bins default_tokenizer) = Some (- 5)"
    unfolding token_val_def d argmin_first_replicate using ne by simp
  then have "discretize (10 ^ 8) (x_bins default_tokenizer) ''POS_X'' = Some ''POS_X_-5''"
    by (simp add: discretize_def format_signed_def nat_digits.simps)
  moreover have "argmin_first (map (\<lambda>b. \<bar>b - 10 ^ 8\<bar>) (x_bins default_tokenizer)) = 10"
    by (simp add: default_tokenizer_bins)
  ultimately show ?thesis using d by simp
qed

section \<open>CLIPMatcher.pick_and_place_from_text\<close>

text \<open>
  Claim C2.  When the lowercased command contains a ground keyword, or the extracted
  place phrase does, the result has the ground flag set and the place target GROUND; no
  place phrase is resolved (no place score is recorded), whatever the encoder scores.
\<close>

theorem ground_short_circuit:
  assumes "any_ground_keyword (lower text) \<or>
           (\<exists>p. extract_place_phrase (lower text) = Some p \<and> any_ground_keyword p)"
  shows "case pick_and_place_from_text sim text objects_meta of
           (pick, place, dbg) \<Rightarrow>
             place = Some GROUND \<and> dbg_place_on_ground dbg \<and> dbg_ground_detected dbg \<and>
             dbg_place_score dbg = None \<and> dbg_place_phrase dbg = None"
proof -
  have g: "any_ground_keyword (lower text) \<or>
           (case extract_place_phrase (lower text) of None \<Rightarrow> False
            | Some p \<Rightarrow> any_ground_keyword p)"
    using assms by (auto split: option.splits)
  show ?thesis
    unfolding pick_and_place_from_text_def Let_def
    using g by (auto split: prod.splits option.splits)
qed

theorem ground_short_circuit_witness:
  "\<forall>sim. case pick_and_place_from_text sim
                 ''pick up the red cube and place it on the ground'' scene_meta of
           (pick, place, dbg) \<Rightarrow>
             place = Some GROUND \<and> dbg_place_on_ground dbg \<and> dbg_ground_detected dbg \<and>
             dbg_place_score dbg = None \<and> dbg_place_phrase dbg = None"
proof
  fix sim
  have "any_ground_keyword (lower ''pick up the red cube and place it on the ground'')"
    by code_simp
  then show "case pick_and_place_from_text sim
                 ''pick up the red cube and place it on the ground'' scene_meta of
           (pick, place, dbg) \<Rightarrow>
             place = Some GROUND \<and> dbg_place_on_ground dbg \<and> dbg_ground_detected dbg \<and>
             dbg_place_score dbg = None \<and> dbg_place_phrase dbg = None"
    using ground_short_circuit [of "''pick up the red cube and place it on the ground''"
        sim scene_meta] by simp
qed




lemma cands_scene:
  "candidates scene_meta =
     [(''red'', 2), (''red cube'', 2), (''red block'', 2), (''the red'', 2), (''the red cube'', 2),
      (''green'', 3), (''green cube'', 3), (''green block'', 3), (''the green'', 3),
      (''the green cube'', 3),
      (''blue'', 4), (''blue cube'', 4), (''blue block'', 4), (''the blue'', 4),
      (''the blue cube'', 4)]"
  by code_simp

lemma max_sims_unfold:
  "max_sims sim phrase cands =
     map (\<lambda>(t, uid). max (max (max (sim phrase t) (sim (''the '' @ phrase) t))
                              (sim (phrase @ '' cube'') t)) (sim (phrase @ '' block'') t)) cands"
  by (simp add: max_sims_def phrase_variations_def)

lemma pool_scores_three:
  "pool_scores None []
     [(2, r1), (2, r2), (2, r3), (2, r4), (2, r5),
      (3, g1), (3, g2), (3, g3), (3, g4), (3, g5),
      (4, b1), (4, b2), (4, b3), (4, b4), (4, b5)] =
   [(2, max (max (max (max (max (- 1) r1) r2) r3) r4) r5),
    (3, max (max (max (max (max (- 1) g1) g2) g3) g4) g5),
    (4, max (max (max (max (max (- 1) b1) b2) b3) b4) b5)]"
  by code_simp

text \<open>
  Claim C1.  The example command that \<^verbatim>\<open>main\<close> prints, on the scene of
  \<^verbatim>\<open>create_scene\<close>: no pick verb matches, so the place phrase \<open>green\<close> is resolved
  first with nothing to exclude, and the literal fallback then picks the first cube
  whose name occurs in the text, which is the green one again.  This holds for every
  encoder that gives a text similarity 1 with itself and less with any other text.
\<close>

theorem advertised_command_same_cube:
  assumes "\<forall>a. sim a a = 1" and "\<forall>a b. a \<noteq> b \<longrightarrow> sim a b < 1"
  shows "case pick_and_place_from_text sim ''put the blue block on the green cube'' scene_meta of
     (pick, place, dbg) \<Rightarrow> pick = Some 3 \<and> place = Some (Object 3)"
proof -
  define v where "v t = max (max (max (sim ''green'' t) (sim ''the green'' t))
                           (sim ''green cube'' t)) (sim ''green block'' t)" for t
  have s1: "sim a a = 1" for a using assms(1) by simp
  have s2: "sim a b < 1" if "a \<noteq> b" for a b using assms(2) that by simp
  have le: "sim a b \<le> 1" for a b using s1 [of a] s2 [of a b] by (cases "a = b") auto
  have v_le: "v t \<le> 1" for t unfolding v_def using le by simp
  have v_lt: "v t < 1"
    if "t \<noteq> ''green''" "t \<noteq> ''the green''" "t \<noteq> ''green cube''" "t \<noteq> ''green block''" for t
    unfolding v_def using that s2 by (simp add: not_sym)
  have v_green: "v ''green'' = 1"
  proof -
    have "1 \<le> v ''green''" unfolding v_def using s1 [of "''green''"] by (simp add: le_max_iff_disj)
    with v_le [of "''green''"] show ?thesis by simp
  qed
  have z: "zip (map snd (candidates scene_meta)) (max_sims sim ''green'' (candidates scene_meta)) =
     [(2, v ''red''), (2, v ''red cube''), (2, v ''red block''), (2, v ''the red''),
      (2, v ''the red cube''),
      (3, v ''green''), (3, v ''green cube''), (3, v ''green block''), (3, v ''the green''),
      (3, v ''the green cube''),
      (4, v ''blue''), (4, v ''blue cube''), (4, v ''blue block''), (4, v ''the blue''),
      (4, v ''the blue cube'')]"
    unfolding cands_scene max_sims_unfold v_def by simp
  define R where "R = max (max (max (max (max (- 1) (v ''red'')) (v ''red cube''))
                     (v ''red block'')) (v ''the red'')) (v ''the red cube'')"
  define G where "G = max (max (max (max (max (- 1) (v ''green'')) (v ''green cube''))
                     (v ''green block'')) (v ''the green'')) (v ''the green cube'')"
  define B where "B = max (max (max (max (max (- 1) (v ''blue'')) (v ''blue cube''))
                     (v ''blue block'')) (v ''the blue'')) (v ''the blue cube'')"
  have R: "R < 1" unfolding R_def by (simp add: v_lt)
  have B: "B < 1" unfolding B_def by (simp add: v_lt)
  have "G \<le> 1" unfolding G_def using v_le by simp
  moreover have "1 \<le> G" unfolding G_def using v_green by (simp add: le_max_iff_disj)
  ultimately have G: "G = 1" by simp
  have pool: "pool_scores None []
      (zip (map snd (candidates scene_meta)) (max_sims sim ''green'' (candidates scene_meta))) =
      [(2, R), (3, G), (4, B)]"
    unfolding z pool_scores_three R_def G_def B_def by (rule refl)
  have p: "best_uid_for sim (candidates scene_meta) ''green'' None = (Some 3, 1)"
    unfolding best_uid_for_def Let_def pool using R B G by simp
  have l: "lower ''put the blue block on the green cube'' = ''put the blue block on the green cube''"
    by code_simp
  have a: "extract_pick_phrase ''put the blue block on the green cube'' = None"
    by code_simp
  have b: "direct_color ''put the blue block on the green cube'' scene_meta
             = Some (3, \<lparr>meta_name = ''green'', meta_color = [0, 1, 0, 1]\<rparr>)"
    by code_simp
  have c: "extract_place_phrase ''put the blue block on the green cube'' = Some ''green''"
    by code_simp
  have g: "any_ground_keyword ''put the blue block on the green cube'' = False"
     "any_ground_keyword ''green'' = False"
    by code_simp+
  show ?thesis
    unfolding pick_and_place_from_text_def Let_def l a b c
    by (simp add: p g)
qed

theorem advertised_command_same_cube_witness:
  "case pick_and_place_from_text sim_exact ''put the blue block on the green cube'' scene_meta of
     (pick, place, dbg) \<Rightarrow> pick = Some 3 \<and> place = Some (Object 3)"
  using advertised_command_same_cube [of sim_exact] by (simp add: sim_exact_def)

end
